theory Spec2Isabelle
  imports Complex_Main "HOL-Library.Word" "HOL-Library.Log_Nat"
begin

section \<open>Bytes, files and struct.unpack\<close>

text \<open>
  The embedding follows \<^verbatim>\<open>obspy/io/segy/core.py\<close>.  A Python \<^verbatim>\<open>bytes\<close> value is a list
  of 8-bit words, a Python \<^verbatim>\<open>int\<close> is an \<^typ>\<open>int\<close>, every exception is a value of
  \<open>error\<close> returned as \<open>Inl\<close>.
\<close>

type_synonym byte = "8 word"

datatype error =
    StructError
  | IndexError
  | KeyError
  | ValueError
  | AttributeError
  | ZeroDivisionError
  | OSError
  | SEGYCoreWritingError
  | SEGYSampleIntervalError
  | UnicodeDecodeError
  | TypeError
  | NameError

text \<open>The byte order characters \<^verbatim>\<open>'>'\<close> and \<^verbatim>\<open>'<'\<close>.\<close>

datatype endian = Big | Little

text \<open>Two's complement reading of an unsigned 16-bit value.\<close>

definition int16 :: "nat \<Rightarrow> int" where
  "int16 u = (if u < 32768 then int u else int u - 65536)"

text \<open>
  \<^verbatim>\<open>unpack(b'>h', s)[0]\<close> and \<^verbatim>\<open>unpack(b'<h', s)[0]\<close>: \<^verbatim>\<open>struct.error\<close> unless \<open>s\<close> has
  exactly two bytes.
\<close>

definition unpack_h :: "endian \<Rightarrow> byte list \<Rightarrow> error + int" where
  "unpack_h e s =
     (case s of
        [b0, b1] \<Rightarrow>
          Inr (int16 (case e of
                        Big \<Rightarrow> 256 * unat b0 + unat b1
                      | Little \<Rightarrow> unat b0 + 256 * unat b1))
      | _ \<Rightarrow> Inl StructError)"

text \<open>
  An open binary file: its content and the position of the file pointer.  \<^verbatim>\<open>read(n)\<close>
  returns at most \<open>n\<close> bytes and advances by what it returned; seeking past the end
  is allowed and later reads return the empty string there.
\<close>

record fp =
  fp_data :: "byte list"
  fp_pos :: nat

definition open_rb :: "byte list \<Rightarrow> fp" where
  "open_rb d = \<lparr>fp_data = d, fp_pos = 0\<rparr>"

definition fread :: "nat \<Rightarrow> fp \<Rightarrow> byte list \<times> fp" where
  "fread n f =
     (let s = take n (drop (fp_pos f) (fp_data f))
      in (s, f\<lparr>fp_pos := fp_pos f + length s\<rparr>))"

definition seek_set :: "nat \<Rightarrow> fp \<Rightarrow> fp" where
  "seek_set p f = f\<lparr>fp_pos := p\<rparr>"

definition seek_cur :: "nat \<Rightarrow> fp \<Rightarrow> fp" where
  "seek_cur k f = f\<lparr>fp_pos := fp_pos f + k\<rparr>"

section \<open>Format detection: \<^verbatim>\<open>_is_segy\<close>\<close>

definition VALID_FORMATS :: "int list" where
  "VALID_FORMATS = [1, 2, 3, 4, 5, 8]"

text \<open>The eight two-byte strings read inside the first \<^verbatim>\<open>try\<close> block, in the order read.\<close>

record segy_fields =
  number_of_data_traces :: "byte list"
  number_of_auxiliary_traces :: "byte list"
  sample_interval :: "byte list"
  samples_per_trace :: "byte list"
  data_format_code :: "byte list"
  format_number :: "byte list"
  fixed_length :: "byte list"
  extended_number :: "byte list"

definition read_fields :: "byte list \<Rightarrow> segy_fields" where
  "read_fields d =
     (let f = seek_set 3212 (open_rb d);
          (ndt, f) = fread 2 f;
          (nau, f) = fread 2 f;
          (si, f) = fread 2 f;
          f = seek_cur 2 f;
          (spt, f) = fread 2 f;
          f = seek_cur 2 f;
          (dfc, f) = fread 2 f;
          f = seek_set 3500 f;
          (fno, f) = fread 2 f;
          (flen, f) = fread 2 f;
          (en, f) = fread 2 f
      in \<lparr>number_of_data_traces = ndt, number_of_auxiliary_traces = nau,
          sample_interval = si, samples_per_trace = spt, data_format_code = dfc,
          format_number = fno, fixed_length = flen, extended_number = en\<rparr>)"

text \<open>
  Lines 85-100: the byte order is chosen from the data sample format code.  The first
  \<^verbatim>\<open>unpack\<close> stands in a \<^verbatim>\<open>try\<close> whose handler returns \<^verbatim>\<open>False\<close>; the second does not.
  \<open>None\<close> is the early \<^verbatim>\<open>return False\<close>.
\<close>

definition detect_endian :: "byte list \<Rightarrow> error + endian option" where
  "detect_endian dfc =
     (case unpack_h Big dfc of
        Inl _ \<Rightarrow> Inr None
      | Inr format \<Rightarrow>
          if format \<in> set VALID_FORMATS then Inr (Some Big)
          else (case unpack_h Little dfc of
                  Inl e \<Rightarrow> Inl e
                | Inr format \<Rightarrow>
                    if format \<in> set VALID_FORMATS then Inr (Some Little) else Inr None))"

text \<open>Lines 101-126: the remaining fields are unpacked with the chosen order, outside any \<^verbatim>\<open>try\<close>.\<close>

definition sanity_checks :: "endian \<Rightarrow> segy_fields \<Rightarrow> error + bool" where
  "sanity_checks e r =
     (case unpack_h e (sample_interval r) of Inl x \<Rightarrow> Inl x | Inr si \<Rightarrow>
     (case unpack_h e (samples_per_trace r) of Inl x \<Rightarrow> Inl x | Inr spt \<Rightarrow>
     (case unpack_h e (number_of_data_traces r) of Inl x \<Rightarrow> Inl x | Inr ndt \<Rightarrow>
     (case unpack_h e (number_of_auxiliary_traces r) of Inl x \<Rightarrow> Inl x | Inr nau \<Rightarrow>
     (case unpack_h e (format_number r) of Inl x \<Rightarrow> Inl x | Inr fno \<Rightarrow>
        if fno \<notin> {0, 256, 16, 1} then Inr False
        else
     (case unpack_h e (fixed_length r) of Inl x \<Rightarrow> Inl x | Inr flen \<Rightarrow>
     (case unpack_h e (extended_number r) of Inl x \<Rightarrow> Inl x | Inr en \<Rightarrow>
        if si \<le> 0 \<or> spt \<le> 0 \<or> ndt < 0 \<or> nau < 0 \<or> flen < 0 \<or> en < 0 then Inr False
        else Inr True)))))))"

text \<open>
  \<^verbatim>\<open>_is_segy(file)\<close>.  The argument is \<open>None\<close> when opening or reading the byte source
  raises (the handler of the first \<^verbatim>\<open>try\<close> returns \<^verbatim>\<open>False\<close>), and the content otherwise.
\<close>

definition is_segy :: "byte list option \<Rightarrow> error + bool" where
  "is_segy file =
     (case file of
        None \<Rightarrow> Inr False
      | Some d \<Rightarrow>
          (let r = read_fields d in
           case detect_endian (data_format_code r) of
             Inl x \<Rightarrow> Inl x
           | Inr None \<Rightarrow> Inr False
           | Inr (Some e) \<Rightarrow> sanity_checks e r))"

section \<open>Header surgery: \<^verbatim>\<open>seismo_segy_remove_extended_headers\<close>\<close>

text \<open>
  The functions named \<^verbatim>\<open>seismo_...\<close> use the names \<^verbatim>\<open>os\<close> and \<^verbatim>\<open>struct\<close>.  A name that a
  function body uses and does not assign is looked up, when the statement runs, in the
  global namespace of the module and then among the builtins, which hold neither of the
  two; a name that is not found raises \<^verbatim>\<open>NameError\<close>.  \<open>core_globals\<close> lists the names that
  the top-level statements of \<^verbatim>\<open>core.py\<close> bind: the imports of lines 11-27, the constants of
  lines 31-38 and the classes and functions the module defines.  Line 13 is
  \<^verbatim>\<open>from struct import unpack\<close>, which binds \<^verbatim>\<open>unpack\<close> and not \<^verbatim>\<open>struct\<close>, and no statement
  binds \<^verbatim>\<open>os\<close>.
\<close>

definition core_globals :: "string list" where
  "core_globals =
     [''warnings'', ''deepcopy'', ''unpack'', ''np'', ''Stream'', ''Trace'', ''UTCDateTime'',
      ''AttribDict'', ''open_bytes_stream'', ''BINARY_FILE_HEADER_FORMAT'',
      ''DATA_SAMPLE_FORMAT_CODE_DTYPE'', ''ENDIAN'', ''TRACE_HEADER_FORMAT'',
      ''TRACE_HEADER_KEYS'', ''_read_segyrev1'', ''_read_su_file'', ''SEGYBinaryFileHeader'',
      ''SEGYError'', ''SEGYFile'', ''SEGYTrace'', ''SEGYTraceHeader'', ''SUFile'',
      ''autodetect_endian_and_sanity_check_su'', ''unpack_header_value'', ''VALID_FORMATS'',
      ''MAX_INTERVAL_IN_SECONDS'', ''MAX_NUMBER_OF_SAMPLES'', ''SEGYCoreWritingError'',
      ''SEGYSampleIntervalError'', ''_is_segy'', ''_read_segy'', ''seismo_read_segy_'',
      ''seismo_segy_read_textual_header'', ''seismo_read_trace_headers'',
      ''seismo_get_segy_number_of_traces'', ''seismo_segy_remove_extended_headers'',
      ''seismo_segy_read_extended_textual_headers'',
      ''seismo_segy_read_num_samples_from_textual_header'', ''seismo_segy_read_binary_header'',
      ''seismo_plot_two_streams_fdomain'', ''_write_segy'', ''_is_su'', ''_read_su'',
      ''_write_su'', ''_segy_trace_str_'', ''LazyTraceHeaderAttribDict'']"

text \<open>The lookup of the global name \<open>name\<close> in the namespace \<open>g\<close>.\<close>

definition global_name :: "string list \<Rightarrow> string \<Rightarrow> error + unit" where
  "global_name g name = (if name \<in> set g then Inr () else Inl NameError)"

text \<open>\<^verbatim>\<open>struct.pack('>h', v)\<close>: \<^verbatim>\<open>struct.error\<close> outside the signed 16-bit range.\<close>

definition pack_h :: "endian \<Rightarrow> int \<Rightarrow> error + byte list" where
  "pack_h e v =
     (if - 32768 \<le> v \<and> v \<le> 32767 then
        (let hi = (word_of_int (v div 256) :: byte); lo = (word_of_int v :: byte)
         in Inr (case e of Big \<Rightarrow> [hi, lo] | Little \<Rightarrow> [lo, hi]))
      else Inl StructError)"

text \<open>Slice assignment \<^verbatim>\<open>b[i:j] = x\<close> on a \<^verbatim>\<open>bytearray\<close>, for \<open>i \<le> j\<close>.\<close>

definition slice_assign :: "byte list \<Rightarrow> nat \<Rightarrow> nat \<Rightarrow> byte list \<Rightarrow> byte list" where
  "slice_assign b i j x = take i b @ x @ drop j b"

text \<open>
  Lines 627-631: copy the rest of the input in chunks of 4096 bytes until a read returns
  the empty string.  The second argument is what has been written to the output so far.
\<close>

function copy_loop :: "fp \<Rightarrow> byte list \<Rightarrow> byte list" where
  "copy_loop infile outfile =
     (case fread 4096 infile of
        (chunk, infile') \<Rightarrow>
          if chunk = [] then outfile else copy_loop infile' (outfile @ chunk))"
  by pat_completeness auto
termination
  by (relation "measure (\<lambda>(f, out). length (fp_data f) - fp_pos f)")
     (auto simp: fread_def Let_def)

declare copy_loop.simps [simp del]

text \<open>
  Lines 596-635.  The first statement of the body, line 596, evaluates \<^verbatim>\<open>os.path.dirname\<close>,
  before any file is opened; line 608 evaluates \<^verbatim>\<open>struct.unpack\<close> and line 618
  \<^verbatim>\<open>struct.pack\<close>.  Line 633 reads \<^verbatim>\<open>elif:\<close>, which Python does not parse; the branch under
  it is taken as the \<^verbatim>\<open>else\<close> branch of the test of line 615.

  The result is \<open>Inr (Some out)\<close> when the output file is written with content \<open>out\<close>,
  \<open>Inr None\<close> when the input declares no extended header and nothing is written, and
  \<open>Inl e\<close> when the exception \<open>e\<close> is raised, which happens before the output file is
  opened, so that nothing is written then either.
\<close>

definition seismo_segy_remove_extended_headers :: "byte list \<Rightarrow> error + byte list option" where
  "seismo_segy_remove_extended_headers d =
     (case global_name core_globals ''os'' of
        Inl x \<Rightarrow> Inl x
      | Inr _ \<Rightarrow>
     (let infile = open_rb d;
          (textual_header, infile) = fread 3200 infile;
          (binary_header, infile) = fread 400 infile
      in case global_name core_globals ''struct'' of
           Inl x \<Rightarrow> Inl x
         | Inr _ \<Rightarrow>
        (case unpack_h Big (take 2 (drop 304 binary_header)) of
           Inl x \<Rightarrow> Inl x
         | Inr num_extended_headers \<Rightarrow>
             if num_extended_headers > 0 then
               (case pack_h Big 0 of
                  Inl x \<Rightarrow> Inl x
                | Inr zero \<Rightarrow>
                    (let binary_header = slice_assign binary_header 304 306 zero;
                         infile = seek_cur (nat (num_extended_headers * 3200)) infile;
                         outfile = textual_header @ binary_header
                     in Inr (Some (copy_loop infile outfile))))
             else Inr None)))"

text \<open>
  The same body run in an arbitrary global namespace \<open>g\<close>, to state what lines 596-635
  do in a module that binds the two names.
\<close>

definition seismo_segy_remove_extended_headers_in ::
  "string list \<Rightarrow> byte list \<Rightarrow> error + byte list option" where
  "seismo_segy_remove_extended_headers_in g d =
     (case global_name g ''os'' of
        Inl x \<Rightarrow> Inl x
      | Inr _ \<Rightarrow>
     (let infile = open_rb d;
          (textual_header, infile) = fread 3200 infile;
          (binary_header, infile) = fread 400 infile
      in case global_name g ''struct'' of
           Inl x \<Rightarrow> Inl x
         | Inr _ \<Rightarrow>
        (case unpack_h Big (take 2 (drop 304 binary_header)) of
           Inl x \<Rightarrow> Inl x
         | Inr num_extended_headers \<Rightarrow>
             if num_extended_headers > 0 then
               (case pack_h Big 0 of
                  Inl x \<Rightarrow> Inl x
                | Inr zero \<Rightarrow>
                    (let binary_header = slice_assign binary_header 304 306 zero;
                         infile = seek_cur (nat (num_extended_headers * 3200)) infile;
                         outfile = textual_header @ binary_header
                     in Inr (Some (copy_loop infile outfile))))
             else Inr None)))"

section \<open>Extended-header scanner: \<^verbatim>\<open>seismo_segy_read_extended_textual_headers\<close>\<close>

text \<open>The test of line 662 on one byte: printable ASCII, line feed or carriage return.\<close>

definition is_text_byte :: "byte \<Rightarrow> bool" where
  "is_text_byte b = ((32 \<le> unat b \<and> unat b \<le> 126) \<or> unat b = 10 \<or> unat b = 13)"

text \<open>\<^verbatim>\<open>bytes.decode('ascii')\<close>: one character per byte, an error on a byte above 127.\<close>

definition decode_ascii :: "byte list \<Rightarrow> error + string" where
  "decode_ascii bs =
     (if list_all (\<lambda>b. unat b < 128) bs then Inr (map (\<lambda>b. char_of (unat b)) bs)
      else Inl UnicodeDecodeError)"

text \<open>
  \<^verbatim>\<open>str.strip()\<close> removes leading and trailing whitespace.  Among the ASCII characters
  \<^verbatim>\<open>str.isspace\<close> holds for codes 9 to 13, 28 to 31 and 32.
\<close>

definition is_space :: "char \<Rightarrow> bool" where
  "is_space c = (let k = (of_char c :: nat) in (9 \<le> k \<and> k \<le> 13) \<or> (28 \<le> k \<and> k \<le> 32))"

definition strip :: "string \<Rightarrow> string" where
  "strip s = rev (dropWhile is_space (rev (dropWhile is_space s)))"

text \<open>\<^verbatim>\<open>header.replace("\r\n", "\n")\<close>: every carriage return followed by a line feed, left to right.\<close>

fun replace_crlf :: "string \<Rightarrow> string" where
  "replace_crlf (c # c' # cs) =
     (if c = CHR 0x0D \<and> c' = CHR 0x0A then CHR 0x0A # replace_crlf cs
      else c # replace_crlf (c' # cs))"
| "replace_crlf cs = cs"

text \<open>
  Lines 653-666: the loop over 3200-byte blocks, with the list \<^verbatim>\<open>headers\<close> and the counter
  \<^verbatim>\<open>bytesize\<close> as accumulators.  A read at the end of the file returns fewer than 3200
  bytes, or none.
\<close>

function scan_loop :: "fp \<Rightarrow> string list \<Rightarrow> nat \<Rightarrow> error + string list \<times> nat" where
  "scan_loop file headers bytesize =
     (case fread 3200 file of
        (extended_header, file') \<Rightarrow>
          if extended_header = [] then Inr (headers, bytesize)
          else if list_all is_text_byte extended_header then
            (case decode_ascii extended_header of
               Inl x \<Rightarrow> Inl x
             | Inr s \<Rightarrow>
                 scan_loop file' (headers @ [strip s]) (bytesize + length extended_header))
          else Inr (headers, bytesize))"
  by pat_completeness auto
termination
  by (relation "measure (\<lambda>(f, hs, n). length (fp_data f) - fp_pos f)")
     (auto simp: fread_def Let_def)

declare scan_loop.simps [simp del]

text \<open>Lines 647-666: the state of \<^verbatim>\<open>headers\<close> and \<^verbatim>\<open>bytesize\<close> when the loop is left.\<close>

definition scan_extended_headers :: "byte list \<Rightarrow> error + string list \<times> nat" where
  "scan_extended_headers d = scan_loop (seek_set 3600 (open_rb d)) [] 0"

text \<open>Lines 668-670: every header, with CRLF replaced by LF, followed by a line feed.\<close>

definition format_headers :: "string list \<Rightarrow> string" where
  "format_headers headers =
     foldl (\<lambda>formatted_header header. formatted_header @ replace_crlf header @ [CHR 0x0A])
       [] headers"

text \<open>The function returns \<^verbatim>\<open>formatted_header\<close> only; \<^verbatim>\<open>bytesize\<close> is dropped.\<close>

definition seismo_segy_read_extended_textual_headers :: "byte list \<Rightarrow> error + string" where
  "seismo_segy_read_extended_textual_headers d =
     (case scan_extended_headers d of
        Inl x \<Rightarrow> Inl x
      | Inr (headers, bytesize) \<Rightarrow> Inr (format_headers headers))"

text \<open>
  The blocks a sequence of \<^verbatim>\<open>read(n)\<close> calls returns before the empty one: consecutive
  slices of \<open>n\<close> elements, the last one possibly shorter.
\<close>

function chunks :: "nat \<Rightarrow> 'a list \<Rightarrow> 'a list list" where
  "chunks n xs = (if n = 0 \<or> xs = [] then [] else take n xs # chunks n (drop n xs))"
  by pat_completeness auto
termination
  by (relation "measure (\<lambda>(n, xs). length xs)") auto

declare chunks.simps [simp del]

text \<open>The characters of a block of ASCII bytes.\<close>

definition ascii_text :: "byte list \<Rightarrow> string" where
  "ascii_text bs = map (\<lambda>b. char_of (unat b)) bs"

text \<open>
  The blocks the scanner accepts: the leading blocks after offset 3600 that pass the
  test of line 662.
\<close>

definition accepted_blocks :: "byte list \<Rightarrow> byte list list" where
  "accepted_blocks d = takeWhile (list_all is_text_byte) (chunks 3200 (drop 3600 d))"

section \<open>Component splitting: \<^verbatim>\<open>seismo_read_segy_\<close>\<close>

text \<open>
  The reader \<^verbatim>\<open>_read_segyrev1\<close> and the conversion \<^verbatim>\<open>to_obspy_trace\<close> live in
  \<^verbatim>\<open>segy.py\<close>, outside this file; they are parameters here, as is the attribute read
  \<^verbatim>\<open>trace.stats.segy.trace_header.source_measurement_unit\<close>.  Of the object the reader
  returns only the list \<^verbatim>\<open>traces\<close> reaches the result: the file-wide headers are copied
  into \<^verbatim>\<open>stream.stats\<close>, and \<^verbatim>\<open>stream\<close> itself is not returned.

  Lines 294-297: convert the traces one by one, appending to the stream.
\<close>

fun convert_traces :: "('s \<Rightarrow> error + 't) \<Rightarrow> 's list \<Rightarrow> 't list \<Rightarrow> error + 't list" where
  "convert_traces to_obspy_trace [] stream = Inr stream"
| "convert_traces to_obspy_trace (tr # trs) stream =
     (case to_obspy_trace tr of
        Inl x \<Rightarrow> Inl x
      | Inr t \<Rightarrow> convert_traces to_obspy_trace trs (stream @ [t]))"

text \<open>Lines 305-315: the loop that appends each trace to at most one of three streams.\<close>

fun assign_components :: "('t \<Rightarrow> int) \<Rightarrow> 't list \<Rightarrow> 't list \<Rightarrow> 't list \<Rightarrow> 't list \<Rightarrow> 't list list" where
  "assign_components smu [] N_stream E_stream Z_stream = [N_stream, E_stream, Z_stream]"
| "assign_components smu (trace # rest) N_stream E_stream Z_stream =
     (if smu trace = 512 then assign_components smu rest (N_stream @ [trace]) E_stream Z_stream
      else if smu trace = 768 then assign_components smu rest N_stream (E_stream @ [trace]) Z_stream
      else if smu trace = 1024 then assign_components smu rest N_stream E_stream (Z_stream @ [trace])
      else assign_components smu rest N_stream E_stream Z_stream)"

text \<open>
  \<^verbatim>\<open>seismo_read_segy_\<close> (a constant name cannot end in an underscore).  Line 280 reads \<^verbatim>\<open>segy_object.traces[0]\<close>, an \<^verbatim>\<open>IndexError\<close> when
  the reader found no trace.
\<close>

definition seismo_read_segy ::
  "('f \<Rightarrow> error + 's list) \<Rightarrow> ('s \<Rightarrow> error + 't) \<Rightarrow> ('t \<Rightarrow> int) \<Rightarrow> 'f \<Rightarrow> error + 't list list" where
  "seismo_read_segy read_segyrev1 to_obspy_trace smu filename =
     (case read_segyrev1 filename of
        Inl x \<Rightarrow> Inl x
      | Inr traces \<Rightarrow>
          (case traces of
             [] \<Rightarrow> Inl IndexError
           | _ # _ \<Rightarrow>
               (case convert_traces to_obspy_trace traces [] of
                  Inl x \<Rightarrow> Inl x
                | Inr stream \<Rightarrow> Inr (assign_components smu stream [] [] []))))"

section \<open>Writing: \<^verbatim>\<open>_write_segy\<close>\<close>

text \<open>
  \<^verbatim>\<open>MAX_INTERVAL_IN_SECONDS = 0.065535\<close> is a Python float: the double nearest to the
  decimal, which is \<open>4722294425275607 / 2 ^ 56\<close>, just below it.  Sample intervals are
  floats too; the model keeps their exact rational values.
\<close>

definition MAX_INTERVAL_IN_SECONDS :: rat where
  "MAX_INTERVAL_IN_SECONDS = 4722294425275607 / 72057594037927936"

definition MAX_NUMBER_OF_SAMPLES :: nat where
  "MAX_NUMBER_OF_SAMPLES = 32767"

text \<open>
  What \<^verbatim>\<open>_write_segy\<close> reads of a trace before it writes: \<^verbatim>\<open>len(tr)\<close>, \<^verbatim>\<open>tr.data.dtype\<close> and
  \<^verbatim>\<open>tr.stats.delta\<close>.  The type of numpy dtypes is a parameter.
\<close>

record 'dt trace =
  tr_npts :: nat
  tr_dtype :: 'dt
  tr_delta :: rat

text \<open>
  \<^verbatim>\<open>stream.stats\<close> with the attributes the function asks for with \<^verbatim>\<open>hasattr\<close>; \<open>None\<close> is
  an absent attribute.  Of the binary file header only \<^verbatim>\<open>data_sample_format_code\<close> is read
  here.
\<close>

record binary_file_header =
  data_sample_format_code :: "int option"

record stream_stats =
  stats_data_encoding :: "int option"
  stats_binary_file_header :: "binary_file_header option"
  stats_endian :: "string option"
  stats_textual_file_header_encoding :: "string option"

record 'dt stream =
  st_traces :: "'dt trace list"
  st_stats :: "stream_stats option"

text \<open>Lines 899-903: the first trace with too many samples raises \<^verbatim>\<open>ValueError\<close>.\<close>

fun check_number_of_samples :: "'dt trace list \<Rightarrow> error + unit" where
  "check_number_of_samples [] = Inr ()"
| "check_number_of_samples (tr # trs) =
     (if tr_npts tr > MAX_NUMBER_OF_SAMPLES then Inl ValueError else check_number_of_samples trs)"

text \<open>
  Lines 905-919: the data encoding.  The \<^verbatim>\<open>else\<close> of line 918 belongs to the second \<^verbatim>\<open>if\<close>
  only, so without a binary file header the encoding is 1 whatever \<^verbatim>\<open>stats.data_encoding\<close>
  says.
\<close>

definition chosen_data_encoding :: "'dt stream \<Rightarrow> int option \<Rightarrow> error + int" where
  "chosen_data_encoding st data_encoding =
     (case data_encoding of
        Some enc \<Rightarrow> if enc \<notin> set VALID_FORMATS then Inl SEGYCoreWritingError else Inr enc
      | None \<Rightarrow>
          (case st_stats st of
             None \<Rightarrow> Inr 1
           | Some s \<Rightarrow>
               (case stats_binary_file_header s of
                  None \<Rightarrow> Inr 1
                | Some h \<Rightarrow>
                    (case data_sample_format_code h of
                       None \<Rightarrow> Inl AttributeError
                     | Some enc \<Rightarrow> Inr enc))))"

text \<open>
  Line 930: \<^verbatim>\<open>DATA_SAMPLE_FORMAT_CODE_DTYPE[data_encoding]\<close>.  The table is defined in
  \<^verbatim>\<open>header.py\<close> and is a parameter; a missing key raises \<^verbatim>\<open>KeyError\<close>.
\<close>

definition valid_dtype_of :: "(int \<rightharpoonup> 'dt) \<Rightarrow> 'dt stream \<Rightarrow> int option \<Rightarrow> error + 'dt" where
  "valid_dtype_of DATA_SAMPLE_FORMAT_CODE_DTYPE st data_encoding =
     (case check_number_of_samples (st_traces st) of
        Inl x \<Rightarrow> Inl x
      | Inr _ \<Rightarrow>
          (case chosen_data_encoding st data_encoding of
             Inl x \<Rightarrow> Inl x
           | Inr enc \<Rightarrow>
               (case DATA_SAMPLE_FORMAT_CODE_DTYPE enc of
                  None \<Rightarrow> Inl KeyError
                | Some valid_dtype \<Rightarrow> Inr valid_dtype)))"

text \<open>Lines 932-949: the dtype and the sample interval of every trace, in order.\<close>

fun check_traces :: "'dt \<Rightarrow> 'dt trace list \<Rightarrow> error + unit" where
  "check_traces valid_dtype [] = Inr ()"
| "check_traces valid_dtype (tr # trs) =
     (if tr_dtype tr \<noteq> valid_dtype then Inl SEGYCoreWritingError
      else if tr_delta tr > MAX_INTERVAL_IN_SECONDS then Inl SEGYSampleIntervalError
      else check_traces valid_dtype trs)"

text \<open>Lines 951-958: the byte order, mapped through the table \<^verbatim>\<open>ENDIAN\<close> of \<^verbatim>\<open>header.py\<close>.\<close>

definition chosen_byteorder :: "(string \<rightharpoonup> string) \<Rightarrow> 'dt stream \<Rightarrow> string option \<Rightarrow> error + string" where
  "chosen_byteorder ENDIAN st byteorder =
     (let b = (case byteorder of
                 Some b \<Rightarrow> b
               | None \<Rightarrow>
                   (case st_stats st of
                      None \<Rightarrow> ''>''
                    | Some s \<Rightarrow> (case stats_endian s of None \<Rightarrow> ''>'' | Some e \<Rightarrow> e)))
      in case ENDIAN b of None \<Rightarrow> Inl KeyError | Some e \<Rightarrow> Inr e)"

text \<open>Lines 959-965: the encoding of the textual header.\<close>

definition chosen_textual_header_encoding :: "'dt stream \<Rightarrow> string option \<Rightarrow> string" where
  "chosen_textual_header_encoding st textual_header_encoding =
     (case textual_header_encoding of
        Some t \<Rightarrow> t
      | None \<Rightarrow>
          (case st_stats st of
             None \<Rightarrow> ''ASCII''
           | Some s \<Rightarrow>
               (case stats_textual_file_header_encoding s of None \<Rightarrow> ''ASCII'' | Some t \<Rightarrow> t)))"

text \<open>
  \<^verbatim>\<open>_write_segy\<close>, with the state of the file system threaded through.  Lines 967-1024
  build a \<^verbatim>\<open>SEGYFile\<close> in memory from classes of \<^verbatim>\<open>segy.py\<close> (parameter \<open>build\<close>); the one
  statement that touches a file is \<^verbatim>\<open>segy_file.write\<close> on line 1026 (parameter
  \<open>segy_file_write\<close>).
\<close>

definition write_segy ::
  "(int \<rightharpoonup> 'dt) \<Rightarrow> (string \<rightharpoonup> string) \<Rightarrow>
   ('dt stream \<Rightarrow> int \<Rightarrow> string \<Rightarrow> string \<Rightarrow> error + 'sf) \<Rightarrow>
   ('sf \<Rightarrow> string \<Rightarrow> int \<Rightarrow> string \<Rightarrow> 'fs \<Rightarrow> (error + unit) \<times> 'fs) \<Rightarrow>
   'dt stream \<Rightarrow> string \<Rightarrow> int option \<Rightarrow> string option \<Rightarrow> string option \<Rightarrow> 'fs \<Rightarrow>
   (error + unit) \<times> 'fs" where
  "write_segy DATA_SAMPLE_FORMAT_CODE_DTYPE ENDIAN build segy_file_write
       st filename data_encoding byteorder textual_header_encoding fs =
     (case check_number_of_samples (st_traces st) of
        Inl x \<Rightarrow> (Inl x, fs)
      | Inr _ \<Rightarrow>
     (case chosen_data_encoding st data_encoding of
        Inl x \<Rightarrow> (Inl x, fs)
      | Inr enc \<Rightarrow>
     (case DATA_SAMPLE_FORMAT_CODE_DTYPE enc of
        None \<Rightarrow> (Inl KeyError, fs)
      | Some valid_dtype \<Rightarrow>
     (case check_traces valid_dtype (st_traces st) of
        Inl x \<Rightarrow> (Inl x, fs)
      | Inr _ \<Rightarrow>
     (case chosen_byteorder ENDIAN st byteorder of
        Inl x \<Rightarrow> (Inl x, fs)
      | Inr bo \<Rightarrow>
     (case build st enc bo (chosen_textual_header_encoding st textual_header_encoding) of
        Inl x \<Rightarrow> (Inl x, fs)
      | Inr segy_file \<Rightarrow> segy_file_write segy_file filename enc bo fs))))))"

section \<open>The lazy trace header: \<^verbatim>\<open>LazyTraceHeaderAttribDict\<close>\<close>

text \<open>
  Copies of a header must not share state, so objects live in an explicit store.  A
  value held in an instance \<^verbatim>\<open>__dict__\<close> is an integer (a decoded field), a string (the
  byte order character) or a reference to a buffer object.  A buffer carries a counter
  of the slices taken from it, the instrument that makes reads observable.
\<close>

type_synonym addr = nat

datatype pyval = PInt int | PStr string | PBuf addr

record buffer =
  buf_bytes :: "byte list"
  buf_reads :: nat

type_synonym pydict = "(string \<times> pyval) list"

record heap =
  next_addr :: addr
  bufs :: "addr \<rightharpoonup> buffer"
  objs :: "addr \<rightharpoonup> pydict"

text \<open>\<^verbatim>\<open>d[k] = v\<close> on an insertion-ordered dictionary.\<close>

fun dict_set :: "pydict \<Rightarrow> string \<Rightarrow> pyval \<Rightarrow> pydict" where
  "dict_set [] k v = [(k, v)]"
| "dict_set ((k', v') # d) k v = (if k' = k then (k, v) # d else (k', v') # dict_set d k v)"

definition readonly :: "string list" where
  "readonly = [''unpacked_header'', ''endian'']"

text \<open>
  An entry of \<^verbatim>\<open>TRACE_HEADER_FORMAT\<close> is \<^verbatim>\<open>[length, name, special_format, start]\<close>, as line
  1321 unpacks it.  The table is defined in \<^verbatim>\<open>header.py\<close> and is a parameter; the type of
  \<^verbatim>\<open>special_format\<close> is left open.
\<close>

type_synonym 'sp header_format = "(nat \<times> string \<times> 'sp \<times> nat) list"

text \<open>
  Modelled from the spec: \<^verbatim>\<open>TRACE_HEADER_KEYS\<close> is defined in \<^verbatim>\<open>header.py\<close>, which is not
  among the sources.  The spec's field schema is one table that maps a field name to
  offset, length and kind and is looked up by name, so the keys are the names of the
  format table, in table order.
\<close>

definition TRACE_HEADER_KEYS :: "'sp header_format \<Rightarrow> string list" where
  "TRACE_HEADER_KEYS fmt = map (\<lambda>(len, name, special_format, start). name) fmt"

text \<open>\<^verbatim>\<open>list.index\<close>: the first position of an element, \<open>None\<close> for \<^verbatim>\<open>ValueError\<close>.\<close>

fun index_of :: "'a list \<Rightarrow> 'a \<Rightarrow> nat option" where
  "index_of [] x = None"
| "index_of (y # ys) x = (if y = x then Some 0 else map_option Suc (index_of ys x))"

text \<open>The slice \<^verbatim>\<open>buffer[start:stop]\<close> of a buffer object; each slice counts as one read.\<close>

definition buf_slice :: "addr \<Rightarrow> nat \<Rightarrow> nat \<Rightarrow> heap \<Rightarrow> (error + byte list) \<times> heap" where
  "buf_slice a start stop h =
     (case bufs h a of
        None \<Rightarrow> (Inl TypeError, h)
      | Some b \<Rightarrow>
          (Inr (take (stop - start) (drop start (buf_bytes b))),
           h\<lparr>bufs := (bufs h)(a \<mapsto> b\<lparr>buf_reads := Suc (buf_reads b)\<rparr>)\<rparr>))"

text \<open>
  Modelled from the spec: \<^verbatim>\<open>setattr(self, name, value)\<close> runs \<^verbatim>\<open>AttribDict.__setitem__\<close> of
  \<^verbatim>\<open>obspy.core\<close>, which is not among the sources.  It refuses a read-only key and otherwise
  stores the value in the instance dictionary under the name (the spec: the first access
  ``stores the result keyed by \<open>f\<close>'').
\<close>

definition setattr :: "addr \<Rightarrow> string \<Rightarrow> pyval \<Rightarrow> heap \<Rightarrow> (error + unit) \<times> heap" where
  "setattr self name v h =
     (if name \<in> set readonly then (Inl AttributeError, h)
      else (case objs h self of
              None \<Rightarrow> (Inl AttributeError, h)
            | Some d \<Rightarrow> (Inr (), h\<lparr>objs := (objs h)(self \<mapsto> dict_set d name v)\<rparr>)))"

text \<open>
  \<^verbatim>\<open>LazyTraceHeaderAttribDict.__getitem__\<close>, lines 1307-1326.  \<^verbatim>\<open>unpack_header_value\<close> is a
  function of \<^verbatim>\<open>util.py\<close> and a parameter here; it may raise.
\<close>

definition getitem ::
  "'sp header_format \<Rightarrow> (pyval \<Rightarrow> byte list \<Rightarrow> nat \<Rightarrow> 'sp \<Rightarrow> error + int) \<Rightarrow>
   addr \<Rightarrow> string \<Rightarrow> heap \<Rightarrow> (error + pyval) \<times> heap" where
  "getitem TRACE_HEADER_FORMAT unpack_header_value self name h =
     (case objs h self of
        None \<Rightarrow> (Inl AttributeError, h)
      | Some d \<Rightarrow>
     (case map_of d name of
        Some v \<Rightarrow> (Inr v, h)
      | None \<Rightarrow>
     (case index_of (TRACE_HEADER_KEYS TRACE_HEADER_FORMAT) name of
        None \<Rightarrow> (Inl AttributeError, h)
      | Some index \<Rightarrow>
     (case TRACE_HEADER_FORMAT ! index of
        (len, name', special_format, start) \<Rightarrow>
     (case map_of d ''unpacked_header'' of
        None \<Rightarrow> (Inl KeyError, h)
      | Some (PInt _) \<Rightarrow> (Inl TypeError, h)
      | Some (PStr _) \<Rightarrow> (Inl TypeError, h)
      | Some (PBuf a) \<Rightarrow>
     (case buf_slice a start (start + len) h of
        (Inl x, h1) \<Rightarrow> (Inl x, h1)
      | (Inr string, h1) \<Rightarrow>
     (case map_of d ''endian'' of
        None \<Rightarrow> (Inl KeyError, h1)
      | Some endian \<Rightarrow>
     (case unpack_header_value endian string len special_format of
        Inl x \<Rightarrow> (Inl x, h1)
      | Inr attribute \<Rightarrow>
     (case setattr self name' (PInt attribute) h1 of
        (Inl x, h2) \<Rightarrow> (Inl x, h2)
      | (Inr _, h2) \<Rightarrow> (Inr (PInt attribute), h2))))))))))"

text \<open>The number of slices taken so far from the buffer at an address.\<close>

definition reads :: "heap \<Rightarrow> addr \<Rightarrow> nat" where
  "reads h a = (case bufs h a of None \<Rightarrow> 0 | Some b \<Rightarrow> buf_reads b)"

text \<open>
  A header as \<^verbatim>\<open>__init__\<close> leaves it: the instance dictionary holds a buffer under
  \<^verbatim>\<open>unpacked_header\<close> and a value under \<^verbatim>\<open>endian\<close>.
\<close>

definition is_lazy_view :: "heap \<Rightarrow> addr \<Rightarrow> bool" where
  "is_lazy_view h self =
     (case objs h self of
        None \<Rightarrow> False
      | Some d \<Rightarrow>
          (case map_of d ''unpacked_header'' of
             Some (PBuf a) \<Rightarrow> bufs h a \<noteq> None \<and> map_of d ''endian'' \<noteq> None
           | _ \<Rightarrow> False))"

text \<open>
  The decode of one field of a header without the cache: the slice of the header's
  buffer at the offset and length the format table gives for the name, handed to
  \<^verbatim>\<open>unpack_header_value\<close> with the header's byte order.  Nothing is stored or counted.
\<close>

definition decode_field ::
  "'sp header_format \<Rightarrow> (pyval \<Rightarrow> byte list \<Rightarrow> nat \<Rightarrow> 'sp \<Rightarrow> error + int) \<Rightarrow>
   heap \<Rightarrow> addr \<Rightarrow> string \<Rightarrow> error + int" where
  "decode_field TRACE_HEADER_FORMAT unpack_header_value h self name =
     (case objs h self of
        None \<Rightarrow> Inl AttributeError
      | Some d \<Rightarrow>
     (case index_of (TRACE_HEADER_KEYS TRACE_HEADER_FORMAT) name of
        None \<Rightarrow> Inl AttributeError
      | Some index \<Rightarrow>
     (case TRACE_HEADER_FORMAT ! index of
        (len, name', special_format, start) \<Rightarrow>
     (case map_of d ''unpacked_header'' of
        None \<Rightarrow> Inl KeyError
      | Some (PInt _) \<Rightarrow> Inl TypeError
      | Some (PStr _) \<Rightarrow> Inl TypeError
      | Some (PBuf a) \<Rightarrow>
     (case bufs h a of
        None \<Rightarrow> Inl TypeError
      | Some b \<Rightarrow>
     (case map_of d ''endian'' of
        None \<Rightarrow> Inl KeyError
      | Some endian \<Rightarrow>
          unpack_header_value endian (take len (drop start (buf_bytes b))) len
            special_format))))))"

text \<open>
  \<^verbatim>\<open>copy.deepcopy\<close> of a value held in an instance dictionary: integers and strings are
  immutable and returned as they are, a buffer is copied into a new object.  (For an
  immutable \<^verbatim>\<open>bytes\<close> buffer Python returns the object itself; as it cannot be mutated,
  the difference cannot be observed.)
\<close>

definition deepcopy :: "pyval \<Rightarrow> heap \<Rightarrow> (error + pyval) \<times> heap" where
  "deepcopy v h =
     (case v of
        PInt i \<Rightarrow> (Inr (PInt i), h)
      | PStr s \<Rightarrow> (Inr (PStr s), h)
      | PBuf a \<Rightarrow>
          (case bufs h a of
             None \<Rightarrow> (Inl TypeError, h)
           | Some b \<Rightarrow>
               (Inr (PBuf (next_addr h)),
                h\<lparr>next_addr := Suc (next_addr h), bufs := (bufs h)(next_addr h \<mapsto> b)\<rparr>)))"

text \<open>
  Lines 1334-1335: \<^verbatim>\<open>dict((k, deepcopy(v)) for k, v in self.__dict__.items() if k not in
  self.readonly)\<close>.  The keys of a dictionary are distinct, so the new dictionary holds the
  copied pairs in the order of the iteration.
\<close>

fun deepcopy_items :: "pydict \<Rightarrow> heap \<Rightarrow> (error + pydict) \<times> heap" where
  "deepcopy_items [] h = (Inr [], h)"
| "deepcopy_items ((k, v) # kvs) h =
     (if k \<in> set readonly then deepcopy_items kvs h
      else (case deepcopy v h of
              (Inl x, h1) \<Rightarrow> (Inl x, h1)
            | (Inr v', h1) \<Rightarrow>
                (case deepcopy_items kvs h1 of
                   (Inl x, h2) \<Rightarrow> (Inl x, h2)
                 | (Inr r, h2) \<Rightarrow> (Inr ((k, v') # r), h2))))"

text \<open>
  Modelled from the spec: \<^verbatim>\<open>self.update(data)\<close> runs \<^verbatim>\<open>AttribDict.update\<close> of \<^verbatim>\<open>obspy.core\<close>,
  which is not among the sources.  It stores every entry of \<open>data\<close> under its key and
  skips read-only keys (the spec: the copy holds ``a correctly independent copy of the
  existing cache'').
\<close>

fun attribdict_update :: "pydict \<Rightarrow> pydict \<Rightarrow> pydict" where
  "attribdict_update d [] = d"
| "attribdict_update d ((k, v) # kvs) =
     (if k \<in> set readonly then attribdict_update d kvs
      else attribdict_update (dict_set d k v) kvs)"

text \<open>
  \<^verbatim>\<open>LazyTraceHeaderAttribDict(unpacked_header, unpacked_header_endian, data)\<close>, lines
  1301-1305: a new object whose instance dictionary receives \<open>data\<close> and then the two
  read-only entries.  \<^verbatim>\<open>dict.__init__(data)\<close> re-initialises \<open>data\<close> with no arguments,
  which changes nothing.
\<close>

definition init_view :: "pyval \<Rightarrow> pyval \<Rightarrow> pydict \<Rightarrow> heap \<Rightarrow> addr \<times> heap" where
  "init_view unpacked_header unpacked_header_endian data h =
     (let self = next_addr h;
          d = attribdict_update [] data;
          d = dict_set d ''unpacked_header'' unpacked_header;
          d = dict_set d ''endian'' unpacked_header_endian
      in (self, h\<lparr>next_addr := Suc self, objs := (objs h)(self \<mapsto> d)\<rparr>))"

text \<open>
  \<^verbatim>\<open>LazyTraceHeaderAttribDict.__deepcopy__\<close>, lines 1330-1336.  The arguments are evaluated
  left to right, then the new object is made.
\<close>

definition deepcopy_view :: "addr \<Rightarrow> heap \<Rightarrow> (error + addr) \<times> heap" where
  "deepcopy_view self h =
     (case objs h self of
        None \<Rightarrow> (Inl AttributeError, h)
      | Some d \<Rightarrow>
     (case map_of d ''unpacked_header'' of
        None \<Rightarrow> (Inl KeyError, h)
      | Some u \<Rightarrow>
     (case deepcopy u h of
        (Inl x, h1) \<Rightarrow> (Inl x, h1)
      | (Inr u', h1) \<Rightarrow>
     (case map_of d ''endian'' of
        None \<Rightarrow> (Inl KeyError, h1)
      | Some e \<Rightarrow>
     (case deepcopy e h1 of
        (Inl x, h2) \<Rightarrow> (Inl x, h2)
      | (Inr e', h2) \<Rightarrow>
     (case deepcopy_items d h2 of
        (Inl x, h3) \<Rightarrow> (Inl x, h3)
      | (Inr data, h3) \<Rightarrow>
          (case init_view u' e' data h3 of (ad, h4) \<Rightarrow> (Inr ad, h4))))))))"

text \<open>
  What can be seen of a header through one of its keys: the integer or string stored
  there, or the buffer object (content and read counter) the stored reference leads to.
\<close>

datatype obs = OInt int | OStr string | OBuf "buffer option"

definition obs_of :: "heap \<Rightarrow> pyval \<Rightarrow> obs" where
  "obs_of h v = (case v of PInt i \<Rightarrow> OInt i | PStr s \<Rightarrow> OStr s | PBuf a \<Rightarrow> OBuf (bufs h a))"

definition observe :: "heap \<Rightarrow> addr \<Rightarrow> string \<Rightarrow> obs option" where
  "observe h self k =
     (case objs h self of None \<Rightarrow> None | Some d \<Rightarrow> map_option (obs_of h) (map_of d k))"

text \<open>
  The mutations of a header: storing a value under a key of its instance dictionary
  (which covers \<^verbatim>\<open>setattr\<close> and the cache), an access that may fill the cache and counts
  a read, and overwriting one byte of a buffer the header refers to.
\<close>

datatype mutation = SetEntry string pyval | GetItem string | WriteByte string nat byte

definition mutate ::
  "'sp header_format \<Rightarrow> (pyval \<Rightarrow> byte list \<Rightarrow> nat \<Rightarrow> 'sp \<Rightarrow> error + int) \<Rightarrow>
   addr \<Rightarrow> mutation \<Rightarrow> heap \<Rightarrow> heap" where
  "mutate fmt unpack self m h =
     (case m of
        SetEntry k v \<Rightarrow>
          (case objs h self of
             None \<Rightarrow> h
           | Some d \<Rightarrow> h\<lparr>objs := (objs h)(self \<mapsto> dict_set d k v)\<rparr>)
      | GetItem name \<Rightarrow> snd (getitem fmt unpack self name h)
      | WriteByte k i x \<Rightarrow>
          (case objs h self of
             None \<Rightarrow> h
           | Some d \<Rightarrow>
               (case map_of d k of
                  Some (PBuf a) \<Rightarrow>
                    (case bufs h a of
                       None \<Rightarrow> h
                     | Some b \<Rightarrow>
                         h\<lparr>bufs := (bufs h)(a \<mapsto> b\<lparr>buf_bytes := (buf_bytes b)[i := x]\<rparr>)\<rparr>)
                | _ \<Rightarrow> h)))"

text \<open>
  A well-formed store: every object lies below the allocation pointer, the keys of an
  instance dictionary are distinct, and every buffer reference leads to a buffer.
\<close>

definition heap_ok :: "heap \<Rightarrow> bool" where
  "heap_ok h =
     ((\<forall>a b. bufs h a = Some b \<longrightarrow> a < next_addr h)
      \<and> (\<forall>s d. objs h s = Some d \<longrightarrow>
            s < next_addr h \<and> distinct (map fst d)
            \<and> (\<forall>k a. (k, PBuf a) \<in> set d \<longrightarrow> bufs h a \<noteq> None)))"

text \<open>
  One store extends another: allocation only moved forward, the objects are the same,
  and the buffers below the old allocation pointer are untouched.
\<close>

definition extends :: "heap \<Rightarrow> heap \<Rightarrow> bool" where
  "extends h h' =
     (next_addr h \<le> next_addr h' \<and> objs h' = objs h
      \<and> (\<forall>a. a < next_addr h \<longrightarrow> bufs h' a = bufs h a)
      \<and> (\<forall>a b. bufs h' a = Some b \<longrightarrow> a < next_addr h'))"

section \<open>Python floats\<close>

text \<open>
  A Python float is an IEEE double.  The model keeps the exact rational value of a float
  and rounds after every operation: \<open>fl q\<close> is the double nearest to \<open>q\<close>, ties going to
  the even significand, for \<open>q\<close> in the range of normal doubles (from \<open>2 ^ -1022\<close> up to
  \<open>2 ^ 1024\<close> in magnitude), where a double is a multiple of \<open>2 ^ (e - 52)\<close> when
  \<open>2 ^ e \<le> |q| < 2 ^ (e + 1)\<close>.

  That exponent \<open>e\<close>, for \<open>q > 0\<close>, from the numbers of binary digits of numerator and
  denominator.
\<close>

definition ilog2 :: "rat \<Rightarrow> int" where
  "ilog2 q =
     (case quotient_of q of
        (a, b) \<Rightarrow>
          (let e0 = bitlen a - bitlen b
           in if 2 powi e0 \<le> q then e0 else e0 - 1))"

definition round_half_even :: "rat \<Rightarrow> int" where
  "round_half_even q =
     (let f = \<lfloor>q\<rfloor>; r = q - of_int f
      in if r < 1 / 2 then f else if 1 / 2 < r then f + 1 else if even f then f else f + 1)"

definition fl :: "rat \<Rightarrow> rat" where
  "fl q =
     (if q = 0 then 0
      else (let u = 2 powi (ilog2 \<bar>q\<bar> - 52) in of_int (round_half_even (q / u)) * u))"

text \<open>\<^verbatim>\<open>a / b\<close> on two Python integers: the correctly rounded quotient.\<close>

definition true_div :: "int \<Rightarrow> int \<Rightarrow> error + rat" where
  "true_div a b = (if b = 0 then Inl ZeroDivisionError else Inr (fl (of_int a / of_int b)))"

text \<open>\<^verbatim>\<open>int(x)\<close> on a float: truncation towards zero.\<close>

definition py_int :: "rat \<Rightarrow> int" where
  "py_int x = (if 0 \<le> x then \<lfloor>x\<rfloor> else \<lceil>x\<rceil>)"

section \<open>Trace count: \<^verbatim>\<open>seismo_get_segy_number_of_traces\<close>\<close>

text \<open>
  Lines 562-572.  The file is opened, positioned and read on lines 563-565; line 566 is
  the first statement that evaluates \<^verbatim>\<open>struct.unpack\<close>, and line 570 evaluates
  \<^verbatim>\<open>os.path.getsize\<close>, the length of the file.  \<^verbatim>\<open>file.seek\<close> returns the new position, and
  raises \<^verbatim>\<open>OSError\<close> for a negative one.  The number of samples is not read from the
  header: it is derived from the sample interval \<open>dt\<close> as the length of a 60-second trace,
  and the sample width is the constant 4.
\<close>

definition seismo_get_segy_number_of_traces :: "byte list \<Rightarrow> error + rat" where
  "seismo_get_segy_number_of_traces d =
     (case fread 400 (seek_set 3200 (open_rb d)) of
        (binary_header, file) \<Rightarrow>
     (case global_name core_globals ''struct'' of
        Inl x \<Rightarrow> Inl x
      | Inr _ \<Rightarrow>
     (case unpack_h Big (take 2 (drop 304 binary_header)) of
        Inl x \<Rightarrow> Inl x
      | Inr num_extended_headers \<Rightarrow>
     (case unpack_h Big (take 2 (drop 16 binary_header)) of
        Inl x \<Rightarrow> Inl x
      | Inr dt \<Rightarrow>
     (case true_div (10 ^ 6) dt of
        Inl x \<Rightarrow> Inl x
      | Inr q \<Rightarrow>
          (let ns = py_int (fl (q * 60)) in
           if 3600 + num_extended_headers * 3200 < 0 then Inl OSError
           else (let start = 3600 + num_extended_headers * 3200 in
                 case global_name core_globals ''os'' of
                   Inl x \<Rightarrow> Inl x
                 | Inr _ \<Rightarrow>
                     (let file_size = int (length d)
                      in true_div (file_size - start) (240 + ns * 4)))))))))"

text \<open>
  The same body run in an arbitrary global namespace \<open>g\<close>, to state what lines 562-572
  do in a module that binds the two names.
\<close>

definition seismo_get_segy_number_of_traces_in :: "string list \<Rightarrow> byte list \<Rightarrow> error + rat" where
  "seismo_get_segy_number_of_traces_in g d =
     (case fread 400 (seek_set 3200 (open_rb d)) of
        (binary_header, file) \<Rightarrow>
     (case global_name g ''struct'' of
        Inl x \<Rightarrow> Inl x
      | Inr _ \<Rightarrow>
     (case unpack_h Big (take 2 (drop 304 binary_header)) of
        Inl x \<Rightarrow> Inl x
      | Inr num_extended_headers \<Rightarrow>
     (case unpack_h Big (take 2 (drop 16 binary_header)) of
        Inl x \<Rightarrow> Inl x
      | Inr dt \<Rightarrow>
     (case true_div (10 ^ 6) dt of
        Inl x \<Rightarrow> Inl x
      | Inr q \<Rightarrow>
          (let ns = py_int (fl (q * 60)) in
           if 3600 + num_extended_headers * 3200 < 0 then Inl OSError
           else (let start = 3600 + num_extended_headers * 3200 in
                 case global_name g ''os'' of
                   Inl x \<Rightarrow> Inl x
                 | Inr _ \<Rightarrow>
                     (let file_size = int (length d)
                      in true_div (file_size - start) (240 + ns * 4)))))))))"

section \<open>Properties of the format detector\<close>

lemma fread_full:
  "fp_pos f + n \<le> length (fp_data f) \<Longrightarrow>
   fread n f = (take n (drop (fp_pos f) (fp_data f)), f\<lparr>fp_pos := fp_pos f + n\<rparr>)"
  by (simp add: fread_def Let_def)

lemma take2_drop: "n + 2 \<le> length d \<Longrightarrow> take 2 (drop n d) = [d ! n, d ! Suc n]"
  by (simp add: numeral_2_eq_2 take_Suc_conv_app_nth)

lemma read_fields_early:
  assumes "3226 \<le> length d"
  shows "number_of_data_traces (read_fields d) = [d ! 3212, d ! 3213]"
    and "number_of_auxiliary_traces (read_fields d) = [d ! 3214, d ! 3215]"
    and "sample_interval (read_fields d) = [d ! 3216, d ! 3217]"
    and "samples_per_trace (read_fields d) = [d ! 3220, d ! 3221]"
    and "data_format_code (read_fields d) = [d ! 3224, d ! 3225]"
    and "format_number (read_fields d) = take 2 (drop 3500 d)"
proof -
  have "fread 2 \<lparr>fp_data = d, fp_pos = p\<rparr> = ([d ! p, d ! Suc p], \<lparr>fp_data = d, fp_pos = p + 2\<rparr>)"
    if "p + 2 \<le> 3226" for p
    using that assms by (simp add: fread_full take2_drop del: take_drop)
  then have "read_fields d = (let f = \<lparr>fp_data = d, fp_pos = 3500\<rparr>
       in \<lparr>number_of_data_traces = [d ! 3212, d ! 3213],
             number_of_auxiliary_traces = [d ! 3214, d ! 3215],
             sample_interval = [d ! 3216, d ! 3217],
             samples_per_trace = [d ! 3220, d ! 3221],
             data_format_code = [d ! 3224, d ! 3225],
             format_number = fst (fread 2 f),
             fixed_length = fst (fread 2 (snd (fread 2 f))),
             extended_number =
               fst (fread 2 (snd (fread 2 (snd (fread 2 f)))))\<rparr>)"
    by (simp add: read_fields_def seek_set_def seek_cur_def open_rb_def case_prod_beta)
  then show "number_of_data_traces (read_fields d) = [d ! 3212, d ! 3213]"
    and "number_of_auxiliary_traces (read_fields d) = [d ! 3214, d ! 3215]"
    and "sample_interval (read_fields d) = [d ! 3216, d ! 3217]"
    and "samples_per_trace (read_fields d) = [d ! 3220, d ! 3221]"
    and "data_format_code (read_fields d) = [d ! 3224, d ! 3225]"
    and "format_number (read_fields d) = take 2 (drop 3500 d)"
    by (simp_all add: Let_def fread_def del: take_drop)
qed

lemma unat_byte_less: "unat (b :: byte) < 256"
  using unsigned_less [of b] by simp

lemma int16_valid: "u < 65536 \<Longrightarrow> int16 u \<in> set VALID_FORMATS \<Longrightarrow> 1 \<le> u \<and> u \<le> 8"
  by (auto simp: int16_def VALID_FORMATS_def split: if_splits)

lemma not_both_valid_nat:
  assumes "x < 256" "y < 256"
  shows "\<not> (int16 (256 * x + y) \<in> set VALID_FORMATS \<and> int16 (x + 256 * y) \<in> set VALID_FORMATS)"
proof
  assume a: "int16 (256 * x + y) \<in> set VALID_FORMATS \<and> int16 (x + 256 * y) \<in> set VALID_FORMATS"
  from assms have "256 * x + y < 65536" "x + 256 * y < 65536" by simp_all
  with a int16_valid have "1 \<le> 256 * x + y \<and> 256 * x + y \<le> 8" "1 \<le> x + 256 * y \<and> x + 256 * y \<le> 8"
    by blast+
  then have "x < 1" "y < 1" "1 \<le> 256 * x + y" by linarith+
  then show False by simp
qed

lemma detect_endian_pair:
  "detect_endian [b0, b1] =
     Inr (if int16 (256 * unat b0 + unat b1) \<in> set VALID_FORMATS then Some Big
          else if int16 (unat b0 + 256 * unat b1) \<in> set VALID_FORMATS then Some Little
          else None)"
  by (simp add: detect_endian_def unpack_h_def)

text \<open>
  Claim C1.  For a file whose data sample format code is present (two bytes at offset
  3224), the detector decodes the code big-endian first and selects Big when the value
  is one of 1, 2, 3, 4, 5, 8; otherwise it decodes little-endian and selects Little when
  that value is valid; otherwise \<^verbatim>\<open>_is_segy\<close> returns \<^verbatim>\<open>False\<close>.  The two decodes are never
  both valid, so a code valid under exactly one order selects that order, with which the
  remaining fields are then checked.
\<close>

theorem is_segy_byte_order:
  fixes d :: "byte list"
  assumes "3226 \<le> length d"
  shows "unpack_h Big (data_format_code (read_fields d)) =
           Inr (int16 (256 * unat (d ! 3224) + unat (d ! 3225)))
       \<and> unpack_h Little (data_format_code (read_fields d)) =
           Inr (int16 (unat (d ! 3224) + 256 * unat (d ! 3225)))
       \<and> \<not> (int16 (256 * unat (d ! 3224) + unat (d ! 3225)) \<in> set VALID_FORMATS
            \<and> int16 (unat (d ! 3224) + 256 * unat (d ! 3225)) \<in> set VALID_FORMATS)
       \<and> detect_endian (data_format_code (read_fields d)) =
           Inr (if int16 (256 * unat (d ! 3224) + unat (d ! 3225)) \<in> set VALID_FORMATS
                then Some Big
                else if int16 (unat (d ! 3224) + 256 * unat (d ! 3225)) \<in> set VALID_FORMATS
                then Some Little
                else None)
       \<and> is_segy (Some d) =
           (if int16 (256 * unat (d ! 3224) + unat (d ! 3225)) \<in> set VALID_FORMATS
            then sanity_checks Big (read_fields d)
            else if int16 (unat (d ! 3224) + 256 * unat (d ! 3225)) \<in> set VALID_FORMATS
            then sanity_checks Little (read_fields d)
            else Inr False)"
proof -
  have dfc: "data_format_code (read_fields d) = [d ! 3224, d ! 3225]"
    using assms by (rule read_fields_early)
  have nb: "\<not> (int16 (256 * unat (d ! 3224) + unat (d ! 3225)) \<in> set VALID_FORMATS
            \<and> int16 (unat (d ! 3224) + 256 * unat (d ! 3225)) \<in> set VALID_FORMATS)"
    by (rule not_both_valid_nat) (rule unat_byte_less)+
  have up: "unpack_h Big [d ! 3224, d ! 3225] = Inr (int16 (256 * unat (d ! 3224) + unat (d ! 3225)))"
       "unpack_h Little [d ! 3224, d ! 3225] = Inr (int16 (unat (d ! 3224) + 256 * unat (d ! 3225)))"
    by (simp_all add: unpack_h_def)
  have seg: "is_segy (Some d) =
           (if int16 (256 * unat (d ! 3224) + unat (d ! 3225)) \<in> set VALID_FORMATS
            then sanity_checks Big (read_fields d)
            else if int16 (unat (d ! 3224) + 256 * unat (d ! 3225)) \<in> set VALID_FORMATS
            then sanity_checks Little (read_fields d)
            else Inr False)"
    by (simp add: is_segy_def Let_def dfc detect_endian_pair)
  show ?thesis
    unfolding dfc using nb up seg detect_endian_pair [of "d ! 3224" "d ! 3225"] by blast
qed

theorem is_segy_byte_order_witness:
  "3226 \<le> length (replicate 3224 (0::byte) @ [5, 0])
   \<and> detect_endian (data_format_code (read_fields (replicate 3224 0 @ [5, 0]))) = Inr (Some Little)"
  using is_segy_byte_order [of "replicate 3224 0 @ [5, 0]"]
  by (simp add: nth_append int16_def VALID_FORMATS_def)

text \<open>
  Claim C5.  \<^verbatim>\<open>_is_segy\<close> is meant to answer \<^verbatim>\<open>False\<close> rather than raise.  Only the reads
  and the first \<^verbatim>\<open>unpack\<close> are guarded: on a file of 3226 bytes with a valid big-endian
  format code the read at offset 3500 returns the empty string and the unguarded
  \<^verbatim>\<open>unpack(fmt, _format_number)\<close> raises \<^verbatim>\<open>struct.error\<close>.
\<close>

theorem is_segy_short_file_raises:
  "is_segy (Some (replicate 3224 0 @ [0, 1])) = Inl StructError"
proof -
  let ?d = "replicate 3224 (0::byte) @ [0, 1]"
  have len: "3226 \<le> length ?d" by simp
  note f = read_fields_early [OF len]
  have "detect_endian (data_format_code (read_fields ?d)) = Inr (Some Big)"
    by (simp add: f nth_append detect_endian_pair int16_def VALID_FORMATS_def)
  moreover have "sanity_checks Big (read_fields ?d) = Inl StructError"
    by (simp add: sanity_checks_def f nth_append unpack_h_def int16_def)
  ultimately show ?thesis by (simp add: is_segy_def Let_def)
qed

section \<open>Properties of the header surgery\<close>

lemma drop_after_take:
  "drop (p + length (take n (drop p d))) d = drop n (drop p d)"
proof (cases "p + n \<le> length d")
  case True
  then show ?thesis by (simp add: min_def add.commute)
next
  case False
  then show ?thesis by (simp add: min_def)
qed

lemma copy_loop_all: "copy_loop f acc = acc @ drop (fp_pos f) (fp_data f)"
proof (induction f acc rule: copy_loop.induct)
  case (1 infile outfile)
  let ?rest = "drop (fp_pos infile) (fp_data infile)"
  let ?chunk = "take 4096 ?rest"
  let ?f' = "infile\<lparr>fp_pos := fp_pos infile + length ?chunk\<rparr>"
  have fr: "fread 4096 infile = (?chunk, ?f')" by (simp add: fread_def Let_def)
  show ?case
  proof (cases "?chunk = []")
    case True
    then have "?rest = []" by (simp add: take_eq_Nil)
    with True fr show ?thesis by (subst copy_loop.simps) simp
  next
    case False
    have "copy_loop infile outfile = copy_loop ?f' (outfile @ ?chunk)"
      using False fr by (subst copy_loop.simps) simp
    also have "\<dots> = (outfile @ ?chunk) @ drop (fp_pos ?f') (fp_data ?f')"
      using False fr by (intro "1.IH") simp_all
    also have "drop (fp_pos ?f') (fp_data ?f') = drop 4096 ?rest"
      using drop_after_take [of "fp_pos infile" 4096 "fp_data infile"] by simp
    also have "(outfile @ ?chunk) @ drop 4096 ?rest = outfile @ ?rest"
      using append_take_drop_id [of 4096 ?rest] by (simp del: append_take_drop_id drop_drop)
    finally show ?thesis .
  qed
qed

lemma pack_h_zero: "pack_h Big 0 = Inr [0, 0]"
  by (simp add: pack_h_def)

lemma remove_ext_output:
  assumes os: "''os'' \<in> set g" and st: "''struct'' \<in> set g"
    and cnt: "unpack_h Big (take 2 (drop 3504 d)) = Inr n"
    and pos: "0 < n"
    and len: "3600 + nat n * 3200 \<le> length d"
  shows "seismo_segy_remove_extended_headers_in g d =
         Inr (Some (take 3504 d @ [0, 0] @ take 94 (drop 3506 d) @ drop (3600 + nat n * 3200) d))"
proof -
  have l: "3600 \<le> length d" using len by simp
  have r1: "fread 3200 (open_rb d) = (take 3200 d, \<lparr>fp_data = d, fp_pos = 3200\<rparr>)"
    using l by (simp add: fread_def open_rb_def Let_def)
  have r2: "fread 400 \<lparr>fp_data = d, fp_pos = 3200\<rparr> =
            (take 400 (drop 3200 d), \<lparr>fp_data = d, fp_pos = 3600\<rparr>)"
    using l by (simp add: fread_def Let_def)
  have s: "take 2 (drop 304 (take 400 (drop 3200 d))) = take 2 (drop 3504 d)"
    by (simp add: drop_take)
  have p: "nat (n * 3200) = nat n * 3200"
    using pos by (simp add: nat_mult_distrib)
  have b: "slice_assign (take 400 (drop 3200 d)) 304 306 [0, 0] =
           take 304 (drop 3200 d) @ [0, 0] @ take 94 (drop 3506 d)"
    by (simp add: slice_assign_def drop_take)
  have t: "take 3200 d @ take 304 (drop 3200 d) = take 3504 d"
    using take_add [of 3200 304 d] by simp
  show ?thesis
    using pos t os st
    by (simp add: seismo_segy_remove_extended_headers_in_def global_name_def r1 r2 s cnt
        pack_h_zero b p seek_cur_def copy_loop_all)
qed

lemma surgery_shape:
  fixes A B C :: "byte list"
  assumes "length A = 3504" "length B = 94"
  shows "length (A @ [0, 0] @ B @ C) = 3600 + length C"
    and "take 3200 (A @ [0, 0] @ B @ C) = take 3200 A"
    and "drop 3600 (A @ [0, 0] @ B @ C) = C"
    and "take 2 (drop 3504 (A @ [0, 0] @ B @ C)) = [0, 0]"
    and "i < 304 \<Longrightarrow> (A @ [0, 0] @ B @ C) ! (3200 + i) = A ! (3200 + i)"
    and "306 \<le> i \<Longrightarrow> i < 400 \<Longrightarrow> (A @ [0, 0] @ B @ C) ! (3200 + i) = B ! (i - 306)"
  using assms by (auto simp: nth_append)

text \<open>
  What lines 596-635 are written to do.  In a global namespace that binds \<^verbatim>\<open>os\<close> and
  \<^verbatim>\<open>struct\<close>, for an input whose extended-header count (binary-header bytes 304-305,
  big-endian) is \<open>n > 0\<close> and which holds the \<open>n\<close> declared 3200-byte extended headers, the
  output file is written, is \<open>n * 3200\<close> bytes shorter than the input, has the textual
  header and every binary-header byte outside the count field unchanged, a count field
  that decodes to 0, and after its 3600 header bytes exactly the input's bytes that
  follow the extended headers (the trace records).
\<close>

lemma remove_extended_headers_in_correct:
  assumes os: "''os'' \<in> set g" and st: "''struct'' \<in> set g"
    and cnt: "unpack_h Big (take 2 (drop 3504 d)) = Inr n"
    and pos: "0 < n"
    and len: "3600 + nat n * 3200 \<le> length d"
  shows "\<exists>out. seismo_segy_remove_extended_headers_in g d = Inr (Some out)
           \<and> int (length out) = int (length d) - n * 3200
           \<and> take 3200 out = take 3200 d
           \<and> (\<forall>i < 400. i \<noteq> 304 \<and> i \<noteq> 305 \<longrightarrow> out ! (3200 + i) = d ! (3200 + i))
           \<and> unpack_h Big (take 2 (drop 3504 out)) = Inr 0
           \<and> drop 3600 out = drop (3600 + nat n * 3200) d"
proof -
  let ?A = "take 3504 d" and ?B = "take 94 (drop 3506 d)"
  let ?C = "drop (3600 + nat n * 3200) d"
  let ?out = "?A @ [0, 0] @ ?B @ ?C"
  have l: "3600 \<le> length d" using len by simp
  have lA: "length ?A = 3504" and lB: "length ?B = 94" using l by simp_all
  note sh = surgery_shape [OF lA lB, where C = ?C]
  have 1: "seismo_segy_remove_extended_headers_in g d = Inr (Some ?out)"
    using os st cnt pos len by (rule remove_ext_output)
  have 2: "int (length ?out) = int (length d) - n * 3200"
    using len pos by (simp only: sh) (simp add: nat_mult_distrib)
  have 3: "take 3200 ?out = take 3200 d"
    by (simp only: sh) simp
  have 4: "\<forall>i < 400. i \<noteq> 304 \<and> i \<noteq> 305 \<longrightarrow> ?out ! (3200 + i) = d ! (3200 + i)"
  proof (intro allI impI)
    fix i :: nat
    assume i: "i < 400" and ne: "i \<noteq> 304 \<and> i \<noteq> 305"
    then consider "i < 304" | "306 \<le> i" by linarith
    then show "?out ! (3200 + i) = d ! (3200 + i)"
    proof cases
      case 1
      then show ?thesis by (simp only: sh) simp
    next
      case 2
      with i have "?out ! (3200 + i) = ?B ! (i - 306)" by (simp only: sh)
      also have "\<dots> = d ! (3200 + i)" using 2 i l by simp
      finally show ?thesis .
    qed
  qed
  have 5: "unpack_h Big (take 2 (drop 3504 ?out)) = Inr 0"
    by (simp only: sh) (simp add: unpack_h_def int16_def)
  have 6: "drop 3600 ?out = ?C"
    by (simp only: sh)
  from 1 2 3 4 5 6 show ?thesis by blast
qed

lemma remove_extended_headers_in_correct_witness:
  "unpack_h Big (take 2 (drop 3504 (replicate 3504 0 @ [0, 1] @ replicate 3294 7 @ [9, 9]))) = Inr 1
   \<and> (0::int) < 1
   \<and> 3600 + nat 1 * 3200 \<le> length (replicate 3504 (0::byte) @ [0, 1] @ replicate 3294 7 @ [9, 9])
   \<and> (\<exists>out. seismo_segy_remove_extended_headers_in (''os'' # ''struct'' # core_globals)
                (replicate 3504 0 @ [0, 1] @ replicate 3294 7 @ [9, 9]) = Inr (Some out)
          \<and> length out = 3602 \<and> drop 3600 out = [9, 9])"
proof -
  let ?d = "replicate 3504 (0::byte) @ [0, 1] @ replicate 3294 7 @ [9, 9]"
  let ?g = "''os'' # ''struct'' # core_globals"
  have g1: "''os'' \<in> set ?g" and g2: "''struct'' \<in> set ?g" by simp_all
  have h1: "unpack_h Big (take 2 (drop 3504 ?d)) = Inr 1"
    by (simp add: unpack_h_def int16_def)
  have h2: "(0::int) < 1" by simp
  have h3: "3600 + nat 1 * 3200 \<le> length ?d" by simp
  from remove_extended_headers_in_correct [OF g1 g2 h1 h2 h3]
  obtain out where o: "seismo_segy_remove_extended_headers_in ?g ?d = Inr (Some out)"
    "int (length out) = int (length ?d) - 1 * 3200"
    "drop 3600 out = drop (3600 + nat 1 * 3200) ?d"
    by blast
  from o(2) have "length out = 3602" by simp
  moreover from o(3) have "drop 3600 out = [9, 9]" by simp
  ultimately show ?thesis using h1 h2 h3 o(1) by blast
qed

text \<open>
  Claim C2.  The claim is that the extended-header removal, run on an input file with
  \<open>N > 0\<close> extended headers, produces an output file with a count field of 0, \<open>N * 3200\<close>
  bytes shorter, and otherwise byte-identical.  In the module as shipped the name \<^verbatim>\<open>os\<close>
  is not bound, so line 596 raises \<^verbatim>\<open>NameError\<close> before the input is opened, and no output
  file is produced: here on a file of 6802 bytes that declares one extended header and
  holds it.
\<close>

theorem remove_extended_headers_raises:
  "unpack_h Big (take 2 (drop 3504 (replicate 3504 0 @ [0, 1] @ replicate 3294 7 @ [9, 9]))) = Inr 1
   \<and> length (replicate 3504 (0::byte) @ [0, 1] @ replicate 3294 7 @ [9, 9]) = 3600 + 1 * 3200 + 2
   \<and> seismo_segy_remove_extended_headers
        (replicate 3504 0 @ [0, 1] @ replicate 3294 7 @ [9, 9]) = Inl NameError"
proof -
  let ?d = "replicate 3504 (0::byte) @ [0, 1] @ replicate 3294 7 @ [9, 9]"
  have h1: "unpack_h Big (take 2 (drop 3504 ?d)) = Inr 1"
    by (simp add: unpack_h_def int16_def)
  have h2: "length ?d = 3600 + 1 * 3200 + 2" by simp
  have h3: "seismo_segy_remove_extended_headers ?d = Inl NameError"
    by (simp add: seismo_segy_remove_extended_headers_def global_name_def core_globals_def)
  from h1 h2 h3 show ?thesis by (intro conjI)
qed

section \<open>Properties of the extended-header scanner\<close>

lemma is_text_byte_word:
  "is_text_byte b = ((0x20 \<le> b \<and> b \<le> 0x7E) \<or> b = 0x0D \<or> b = 0x0A)"
  by (auto simp: is_text_byte_def word_le_nat_alt word_unat_eq_iff)

lemma decode_text:
  assumes "list_all is_text_byte bs"
  shows "decode_ascii bs = Inr (ascii_text bs)"
proof -
  have "list_all (\<lambda>b. unat b < 128) bs"
    using assms by (induction bs) (auto simp: is_text_byte_def)
  then show ?thesis by (simp add: decode_ascii_def ascii_text_def)
qed

lemma scan_loop_unfold:
  "scan_loop f hs n =
     (let blk = take 3200 (drop (fp_pos f) (fp_data f)) in
      if blk = [] then Inr (hs, n)
      else if list_all is_text_byte blk then
        scan_loop (f\<lparr>fp_pos := fp_pos f + length blk\<rparr>) (hs @ [strip (ascii_text blk)])
          (n + length blk)
      else Inr (hs, n))"
  by (subst scan_loop.simps) (simp add: fread_def Let_def decode_text)

text \<open>
  Claim C6.  When the scanner reads a full 3200-byte block, the block is recorded as an
  extended textual header and the scan goes on behind it if and only if every byte lies
  in 0x20-0x7E or is CR or LF; otherwise the scan ends there with the headers and the byte
  count collected so far.  A block that contains a zero byte therefore ends the scan,
  whatever was accepted before it.
\<close>

theorem scan_loop_block:
  assumes "fp_pos f + 3200 \<le> length (fp_data f)"
  shows "scan_loop f hs n =
           (if \<forall>b \<in> set (take 3200 (drop (fp_pos f) (fp_data f))).
                 (0x20 \<le> b \<and> b \<le> 0x7E) \<or> b = 0x0D \<or> b = 0x0A
            then scan_loop (f\<lparr>fp_pos := fp_pos f + 3200\<rparr>)
                   (hs @ [strip (ascii_text (take 3200 (drop (fp_pos f) (fp_data f))))])
                   (n + 3200)
            else Inr (hs, n))
       \<and> (0 \<in> set (take 3200 (drop (fp_pos f) (fp_data f))) \<longrightarrow> scan_loop f hs n = Inr (hs, n))"
proof -
  let ?blk = "take 3200 (drop (fp_pos f) (fp_data f))"
  have len: "length ?blk = 3200" using assms by simp
  then have ne: "?blk \<noteq> []" by auto
  have tb: "list_all is_text_byte ?blk \<longleftrightarrow>
             (\<forall>b \<in> set ?blk. (0x20 \<le> b \<and> b \<le> 0x7E) \<or> b = 0x0D \<or> b = 0x0A)"
    by (simp add: list_all_iff is_text_byte_word)
  have step: "scan_loop f hs n =
           (if \<forall>b \<in> set ?blk. (0x20 \<le> b \<and> b \<le> 0x7E) \<or> b = 0x0D \<or> b = 0x0A
            then scan_loop (f\<lparr>fp_pos := fp_pos f + 3200\<rparr>) (hs @ [strip (ascii_text ?blk)]) (n + 3200)
            else Inr (hs, n))"
    by (subst scan_loop_unfold) (simp only: Let_def ne len tb if_False)
  have zero: "scan_loop f hs n = Inr (hs, n)" if "0 \<in> set ?blk"
  proof -
    have "\<not> (\<forall>b \<in> set ?blk. (0x20 \<le> b \<and> b \<le> 0x7E) \<or> b = 0x0D \<or> b = 0x0A)"
      using that by (auto intro!: bexI [of _ 0])
    then show ?thesis by (simp only: step if_False)
  qed
  from step zero show ?thesis by blast
qed

theorem scan_loop_block_witness:
  "fp_pos \<lparr>fp_data = replicate 3199 65 @ [0], fp_pos = 0\<rparr> + 3200
     \<le> length (fp_data \<lparr>fp_data = replicate 3199 65 @ [0], fp_pos = 0\<rparr>)
   \<and> scan_loop \<lparr>fp_data = replicate 3199 65 @ [0], fp_pos = 0\<rparr> [''A''] 3200 = Inr ([''A''], 3200)"
  using scan_loop_block [of "\<lparr>fp_data = replicate 3199 65 @ [0], fp_pos = 0\<rparr>" "[''A'']" 3200]
  by simp

lemma chunks_Nil: "chunks n [] = []"
  by (subst chunks.simps) simp

lemma chunks_step: "0 < n \<Longrightarrow> xs \<noteq> [] \<Longrightarrow> chunks n xs = take n xs # chunks n (drop n xs)"
  by (subst chunks.simps) simp

lemma scan_loop_chunks:
  "scan_loop f hs n =
     Inr (hs @ map (\<lambda>blk. strip (ascii_text blk))
                (takeWhile (list_all is_text_byte) (chunks 3200 (drop (fp_pos f) (fp_data f)))),
          n + sum_list (map length
                (takeWhile (list_all is_text_byte) (chunks 3200 (drop (fp_pos f) (fp_data f))))))"
proof (induction f hs n rule: scan_loop.induct)
  case (1 fpt headers bytesize)
  let ?rest = "drop (fp_pos fpt) (fp_data fpt)"
  let ?blk = "take 3200 ?rest"
  let ?f' = "fpt\<lparr>fp_pos := fp_pos fpt + length ?blk\<rparr>"
  have fr: "fread 3200 fpt = (?blk, ?f')" by (simp add: fread_def Let_def)
  show ?case
  proof (cases "?blk = []")
    case True
    then have "?rest = []" by (simp add: take_eq_Nil)
    with True show ?thesis by (subst scan_loop_unfold) (simp add: chunks_Nil)
  next
    case ne: False
    then have rne: "?rest \<noteq> []" by auto
    have ch: "chunks 3200 ?rest = ?blk # chunks 3200 (drop 3200 ?rest)"
      using rne by (simp add: chunks_step)
    show ?thesis
    proof (cases "list_all is_text_byte ?blk")
      case False
      with ne show ?thesis by (subst scan_loop_unfold) (simp add: ch Let_def)
    next
      case True
      have dr: "drop (fp_pos ?f') (fp_data ?f') = drop 3200 ?rest"
        using drop_after_take [of "fp_pos fpt" 3200 "fp_data fpt"] by simp
      have "scan_loop fpt headers bytesize =
            scan_loop ?f' (headers @ [strip (ascii_text ?blk)]) (bytesize + length ?blk)"
        using ne True by (subst scan_loop_unfold) (simp add: Let_def)
      also have "\<dots> = Inr ((headers @ [strip (ascii_text ?blk)]) @
              map (\<lambda>blk. strip (ascii_text blk))
                (takeWhile (list_all is_text_byte) (chunks 3200 (drop (fp_pos ?f') (fp_data ?f')))),
            (bytesize + length ?blk) + sum_list (map length
                (takeWhile (list_all is_text_byte) (chunks 3200 (drop (fp_pos ?f') (fp_data ?f'))))))"
        using fr ne True decode_text [OF True]
        by (intro "1.IH" [of ?blk ?f' "ascii_text ?blk"]) simp_all
      also have "\<dots> = Inr (headers @ map (\<lambda>blk. strip (ascii_text blk))
                (takeWhile (list_all is_text_byte) (chunks 3200 ?rest)),
            bytesize + sum_list (map length
                (takeWhile (list_all is_text_byte) (chunks 3200 ?rest))))"
        using True by (simp only: dr ch) simp
      finally show ?thesis .
    qed
  qed
qed

lemma format_headers_concat:
  "foldl (\<lambda>formatted_header header. formatted_header @ replace_crlf header @ [CHR 0x0A]) a hs =
     a @ concat (map (\<lambda>header. replace_crlf header @ [CHR 0x0A]) hs)"
  by (induction hs arbitrary: a) simp_all

text \<open>
  Claim C7, as amended.  For every input file the loop collects, in order, the accepted
  blocks decoded as ASCII and stripped of surrounding whitespace, together with the
  number of bytes in them; the function returns one string only, the concatenation of
  the collected headers with CRLF replaced by LF and a line feed after each.
\<close>

theorem read_extended_textual_headers_result:
  "scan_extended_headers d =
     Inr (map (\<lambda>blk. strip (ascii_text blk)) (accepted_blocks d),
          sum_list (map length (accepted_blocks d)))
   \<and> seismo_segy_read_extended_textual_headers d =
     Inr (concat (map (\<lambda>blk. replace_crlf (strip (ascii_text blk)) @ [CHR 0x0A])
            (accepted_blocks d)))"
proof -
  have s: "scan_extended_headers d =
     Inr (map (\<lambda>blk. strip (ascii_text blk)) (accepted_blocks d),
          sum_list (map length (accepted_blocks d)))"
    by (simp add: scan_extended_headers_def scan_loop_chunks accepted_blocks_def
        seek_set_def open_rb_def)
  then show ?thesis
    by (simp add: seismo_segy_read_extended_textual_headers_def format_headers_def
        format_headers_concat comp_def map_concat)
qed

lemma char_of_A: "char_of (65 :: nat) = CHR ''A''"
  by code_simp

lemma char_of_space: "char_of (32 :: nat) = CHR '' ''"
  by code_simp

lemma scan_extended_headers_short_block:
  assumes "length pre = 3600" "blk \<noteq> []" "length blk \<le> 3200" "list_all is_text_byte blk"
  shows "scan_extended_headers (pre @ blk) = Inr ([strip (ascii_text blk)], length blk)"
proof -
  have 1: "scan_loop \<lparr>fp_data = pre @ blk, fp_pos = 3600\<rparr> [] 0 =
        scan_loop \<lparr>fp_data = pre @ blk, fp_pos = 3600 + length blk\<rparr> [strip (ascii_text blk)] (length blk)"
    using assms by (subst scan_loop_unfold) (simp add: Let_def)
  have 2: "scan_loop \<lparr>fp_data = pre @ blk, fp_pos = 3600 + length blk\<rparr> [strip (ascii_text blk)] (length blk)
        = Inr ([strip (ascii_text blk)], length blk)"
    using assms by (subst scan_loop_unfold) (simp add: Let_def)
  show ?thesis
    by (simp add: scan_extended_headers_def seek_set_def open_rb_def 1 2)
qed

text \<open>
  Claim C7 as stated fails: the value returned is a string, not a pair of a sequence and
  a byte count.  Two files whose scans consume one and two bytes return the same value.
\<close>

theorem read_extended_textual_headers_counterexample:
  "scan_extended_headers (replicate 3600 0 @ [65]) = Inr ([''A''], 1)
   \<and> scan_extended_headers (replicate 3600 0 @ [65, 32]) = Inr ([''A''], 2)
   \<and> seismo_segy_read_extended_textual_headers (replicate 3600 0 @ [65]) = Inr [CHR ''A'', CHR 0x0A]
   \<and> seismo_segy_read_extended_textual_headers (replicate 3600 0 @ [65, 32]) = Inr [CHR ''A'', CHR 0x0A]"
proof -
  have a: "scan_extended_headers (replicate 3600 0 @ [65]) = Inr ([''A''], 1)"
    by (subst scan_extended_headers_short_block)
       (simp_all add: is_text_byte_def ascii_text_def char_of_A strip_def is_space_def)
  have b: "scan_extended_headers (replicate 3600 0 @ [65, 32]) = Inr ([''A''], 2)"
    by (subst scan_extended_headers_short_block)
       (simp_all add: is_text_byte_def ascii_text_def char_of_A char_of_space strip_def is_space_def)
  show ?thesis
    by (simp add: a b seismo_segy_read_extended_textual_headers_def format_headers_def)
qed

section \<open>Properties of the component splitting\<close>

lemma assign_components_filter:
  "assign_components smu ts N E Z =
     [N @ filter (\<lambda>t. smu t = 512) ts, E @ filter (\<lambda>t. smu t = 768) ts,
      Z @ filter (\<lambda>t. smu t = 1024) ts]"
  by (induction ts arbitrary: N E Z) simp_all

text \<open>
  Claim C10.  When the reader returns at least one trace and every trace converts, the
  operation returns exactly three streams: the converted traces whose
  \<^verbatim>\<open>source_measurement_unit\<close> is 512, those where it is 768 and those where it is 1024, each
  in file order.  So a trace is in the first, second or third stream if and only if its
  value is 512, 768 or 1024, and a trace with any other value is in none of them.
\<close>

theorem seismo_read_segy_components:
  assumes "read_segyrev1 filename = Inr traces"
    and "traces \<noteq> []"
    and "convert_traces to_obspy_trace traces [] = Inr stream"
  shows "seismo_read_segy read_segyrev1 to_obspy_trace smu filename =
           Inr [filter (\<lambda>t. smu t = 512) stream, filter (\<lambda>t. smu t = 768) stream,
                filter (\<lambda>t. smu t = 1024) stream]
       \<and> (\<forall>res. seismo_read_segy read_segyrev1 to_obspy_trace smu filename = Inr res \<longrightarrow>
            length res = 3
            \<and> (\<forall>t. t \<in> set (res ! 0) \<longleftrightarrow> t \<in> set stream \<and> smu t = 512)
            \<and> (\<forall>t. t \<in> set (res ! 1) \<longleftrightarrow> t \<in> set stream \<and> smu t = 768)
            \<and> (\<forall>t. t \<in> set (res ! 2) \<longleftrightarrow> t \<in> set stream \<and> smu t = 1024)
            \<and> (\<forall>t. smu t \<noteq> 512 \<and> smu t \<noteq> 768 \<and> smu t \<noteq> 1024 \<longrightarrow>
                  t \<notin> set (res ! 0) \<and> t \<notin> set (res ! 1) \<and> t \<notin> set (res ! 2)))"
proof -
  have r: "seismo_read_segy read_segyrev1 to_obspy_trace smu filename =
           Inr [filter (\<lambda>t. smu t = 512) stream, filter (\<lambda>t. smu t = 768) stream,
                filter (\<lambda>t. smu t = 1024) stream]"
  proof (cases traces)
    case Nil
    with assms(2) show ?thesis by simp
  next
    case (Cons tr trs)
    with assms(3) have "convert_traces to_obspy_trace (tr # trs) [] = Inr stream" by simp
    with assms(1) Cons show ?thesis
      by (simp add: seismo_read_segy_def assign_components_filter del: convert_traces.simps)
  qed
  show ?thesis
    unfolding r by (auto simp: numeral_2_eq_2)
qed

theorem seismo_read_segy_components_witness:
  "(\<lambda>f::unit. Inr [1, 2, 3, 4 :: nat]) () = (Inr [1, 2, 3, 4] :: error + nat list)
   \<and> [1, 2, 3, 4 :: nat] \<noteq> []
   \<and> convert_traces (\<lambda>s. Inr (s, 256 * int s)) [1, 2, 3, 4 :: nat] []
        = (Inr [(1, 256), (2, 512), (3, 768), (4, 1024)] :: error + (nat \<times> int) list)
   \<and> seismo_read_segy (\<lambda>f::unit. (Inr [1, 2, 3, 4 :: nat] :: error + nat list))
        (\<lambda>s. (Inr (s, 256 * int s) :: error + nat \<times> int)) snd ()
        = Inr [[(2, 512)], [(3, 768)], [(4, 1024)]]"
proof -
  have c: "convert_traces (\<lambda>s. Inr (s, 256 * int s)) [1, 2, 3, 4 :: nat] []
        = (Inr [(1, 256), (2, 512), (3, 768), (4, 1024)] :: error + (nat \<times> int) list)"
    by simp
  have n: "[1, 2, 3, 4 :: nat] \<noteq> []" by simp
  have "seismo_read_segy (\<lambda>f::unit. (Inr [1, 2, 3, 4 :: nat] :: error + nat list))
        (\<lambda>s. (Inr (s, 256 * int s) :: error + nat \<times> int)) snd ()
        = Inr [[(2, 512)], [(3, 768)], [(4, 1024)]]"
    using seismo_read_segy_components [of "\<lambda>f::unit. Inr [1, 2, 3, 4 :: nat]" "()" "[1, 2, 3, 4]"
        "\<lambda>s. Inr (s, 256 * int s)" "[(1, 256), (2, 512), (3, 768), (4, 1024)]" snd, OF refl n c]
    by simp
  with c n show ?thesis by simp
qed

section \<open>Properties of the writer\<close>

lemma check_number_of_samples_Inr:
  "check_number_of_samples trs = Inr u \<longleftrightarrow> (\<forall>tr \<in> set trs. tr_npts tr \<le> MAX_NUMBER_OF_SAMPLES)"
  by (induction trs) auto

lemma check_traces_Inr:
  "check_traces vd trs = Inr u \<longleftrightarrow>
     (\<forall>tr \<in> set trs. tr_dtype tr = vd \<and> tr_delta tr \<le> MAX_INTERVAL_IN_SECONDS)"
  by (induction trs) auto

lemma MAX_INTERVAL_below: "MAX_INTERVAL_IN_SECONDS < 65535 / 1000000"
  by (simp add: MAX_INTERVAL_IN_SECONDS_def)

text \<open>
  Claim C8.  If some trace of the stream has a dtype other than the one the chosen data
  encoding requires, or a sample interval above 0.065535 s, or more than 32767 samples,
  then \<^verbatim>\<open>_write_segy\<close> ends with an error and the file system is as it was: the error is
  raised before line 1026, the only statement that writes.
\<close>

theorem write_segy_validation:
  assumes "\<exists>tr \<in> set (st_traces st).
             valid_dtype_of DTYPE st data_encoding \<noteq> Inr (tr_dtype tr)
             \<or> tr_delta tr > 65535 / 1000000
             \<or> tr_npts tr > 32767"
  shows "\<exists>e. write_segy DTYPE ENDIAN build segy_file_write st filename data_encoding byteorder
               textual_header_encoding fs = (Inl e, fs)"
proof -
  from assms obtain tr where tr: "tr \<in> set (st_traces st)"
    and bad: "valid_dtype_of DTYPE st data_encoding \<noteq> Inr (tr_dtype tr)
             \<or> tr_delta tr > 65535 / 1000000 \<or> tr_npts tr > 32767"
    by blast
  show ?thesis
  proof (cases "check_number_of_samples (st_traces st)")
    case (Inl x)
    then show ?thesis by (simp add: write_segy_def)
  next
    case len: (Inr u)
    then have small: "tr_npts tr \<le> 32767"
      using tr by (auto simp: check_number_of_samples_Inr MAX_NUMBER_OF_SAMPLES_def)
    show ?thesis
    proof (cases "chosen_data_encoding st data_encoding")
      case (Inl x)
      with len show ?thesis by (simp add: write_segy_def)
    next
      case enc: (Inr enc)
      show ?thesis
      proof (cases "DTYPE enc")
        case None
        with len enc show ?thesis by (simp add: write_segy_def)
      next
        case (Some vd)
        have "check_traces vd (st_traces st) \<noteq> Inr ()"
        proof
          assume "check_traces vd (st_traces st) = Inr ()"
          with tr have "tr_dtype tr = vd" "tr_delta tr \<le> MAX_INTERVAL_IN_SECONDS"
            by (auto simp: check_traces_Inr)
          moreover have "valid_dtype_of DTYPE st data_encoding = Inr vd"
            using len enc Some by (simp add: valid_dtype_of_def)
          ultimately show False
            using bad small MAX_INTERVAL_below by auto
        qed
        then obtain x where "check_traces vd (st_traces st) = Inl x"
          by (cases "check_traces vd (st_traces st)") auto
        with len enc Some show ?thesis by (simp add: write_segy_def)
      qed
    qed
  qed
qed

theorem write_segy_validation_witness:
  "(\<exists>tr \<in> set (st_traces \<lparr>st_traces = [\<lparr>tr_npts = 10, tr_dtype = True, tr_delta = 1\<rparr>], st_stats = None\<rparr>).
       valid_dtype_of (\<lambda>k. Some True) \<lparr>st_traces = [\<lparr>tr_npts = 10, tr_dtype = True, tr_delta = 1\<rparr>], st_stats = None\<rparr>
         None \<noteq> Inr (tr_dtype tr)
       \<or> tr_delta tr > 65535 / 1000000 \<or> tr_npts tr > 32767)
   \<and> write_segy (\<lambda>k. Some True) (\<lambda>b. Some b) (\<lambda>s e b t. Inr s)
         (\<lambda>sf name e b fs. (Inr (), (name, sf) # fs))
         \<lparr>st_traces = [\<lparr>tr_npts = 10, tr_dtype = True, tr_delta = 1\<rparr>], st_stats = None\<rparr> ''out.sgy'' None None None []
       = (Inl SEGYSampleIntervalError, [])"
proof -
  let ?st = "\<lparr>st_traces = [\<lparr>tr_npts = 10, tr_dtype = True, tr_delta = 1\<rparr>], st_stats = None\<rparr>"
  have h: "\<exists>tr \<in> set (st_traces ?st).
       valid_dtype_of (\<lambda>k. Some True) ?st None \<noteq> Inr (tr_dtype tr)
       \<or> tr_delta tr > 65535 / 1000000 \<or> tr_npts tr > 32767"
    by simp
  from write_segy_validation [OF h, of "\<lambda>b. Some b" "\<lambda>s e b t. Inr s"
      "\<lambda>sf name e b fs. (Inr (), (name, sf) # fs)" "''out.sgy''" None None "[]"]
  obtain e where e: "write_segy (\<lambda>k. Some True) (\<lambda>b. Some b) (\<lambda>s e b t. Inr s)
         (\<lambda>sf name e b fs. (Inr (), (name, sf) # fs)) ?st ''out.sgy'' None None None []
       = (Inl e, [])"
    by blast
  moreover have "e = SEGYSampleIntervalError"
    using e by (simp add: write_segy_def MAX_NUMBER_OF_SAMPLES_def chosen_data_encoding_def
        MAX_INTERVAL_IN_SECONDS_def)
  ultimately show ?thesis using h by simp
qed

section \<open>Properties of the lazy trace header\<close>

lemma map_of_dict_set: "map_of (dict_set d k v) = (map_of d)(k \<mapsto> v)"
  by (induction d) (auto simp: fun_eq_iff)

lemma index_of_Some:
  "index_of xs x = Some i \<Longrightarrow> i < length xs \<and> xs ! i = x"
  by (induction xs arbitrary: i) (auto split: if_splits)

lemma index_of_mem: "x \<in> set xs \<Longrightarrow> \<exists>i. index_of xs x = Some i"
  by (induction xs) auto

lemma format_name_at:
  assumes "index_of (TRACE_HEADER_KEYS fmt) name = Some i"
    and "fmt ! i = (len, name', sp, start)"
  shows "name' = name"
proof -
  from index_of_Some [OF assms(1)]
  have i: "i < length fmt" and n: "TRACE_HEADER_KEYS fmt ! i = name"
    by (simp_all add: TRACE_HEADER_KEYS_def)
  from i n assms(2) show ?thesis by (simp add: TRACE_HEADER_KEYS_def)
qed

lemma getitem_caches:
  assumes "getitem fmt unpack self name h = (Inr v, h')"
  shows "\<exists>d'. objs h' self = Some d' \<and> map_of d' name = Some v"
proof -
  from assms obtain d where d: "objs h self = Some d"
    by (auto simp: getitem_def split: option.splits)
  show ?thesis
  proof (cases "map_of d name")
    case (Some w)
    with assms d show ?thesis by (simp add: getitem_def)
  next
    case None
    with assms d obtain i where i: "index_of (TRACE_HEADER_KEYS fmt) name = Some i"
      by (auto simp: getitem_def split: option.splits)
    obtain len name' sp start where f: "fmt ! i = (len, name', sp, start)"
      by (cases "fmt ! i") auto
    have nm: "name' = name" using i f by (rule format_name_at)
    from assms d None i f nm show ?thesis
      by (auto simp: getitem_def buf_slice_def setattr_def map_of_dict_set
          split: option.splits pyval.splits sum.splits if_splits)
  qed
qed

lemma getitem_hit:
  "objs h self = Some d \<Longrightarrow> map_of d name = Some v \<Longrightarrow>
   getitem fmt unpack self name h = (Inr v, h)"
  by (simp add: getitem_def)

lemma getitem_reads:
  assumes "getitem fmt unpack self name h = (r, h')"
  shows "reads h' a \<le> reads h a + 1"
proof (cases "objs h self")
  case None
  with assms show ?thesis by (simp add: getitem_def)
next
  case (Some d)
  show ?thesis
  proof (cases "map_of d name")
    case (Some w)
    with assms \<open>objs h self = Some d\<close> show ?thesis by (simp add: getitem_def)
  next
    case None
    show ?thesis
    proof (cases "index_of (TRACE_HEADER_KEYS fmt) name")
      case n: None
      with assms None \<open>objs h self = Some d\<close> show ?thesis by (simp add: getitem_def)
    next
      case (Some i)
      obtain len name' sp start where f: "fmt ! i = (len, name', sp, start)"
        by (cases "fmt ! i") auto
      from assms None \<open>objs h self = Some d\<close> Some f show ?thesis
        by (auto simp: getitem_def buf_slice_def setattr_def reads_def
            split: option.splits pyval.splits sum.splits if_splits)
    qed
  qed
qed

lemma getitem_returns:
  assumes "decode_field fmt unpack h self name = Inr x"
  shows "\<exists>v h'. getitem fmt unpack self name h = (Inr v, h')"
proof -
  from assms obtain d where d: "objs h self = Some d"
    by (auto simp: decode_field_def split: option.splits)
  show ?thesis
  proof (cases "map_of d name")
    case (Some w)
    with d show ?thesis by (simp add: getitem_def)
  next
    case None
    from assms d obtain i where i: "index_of (TRACE_HEADER_KEYS fmt) name = Some i"
      by (auto simp: decode_field_def split: option.splits)
    obtain len name' sp start where f: "fmt ! i = (len, name', sp, start)"
      by (cases "fmt ! i") auto
    have nm: "name' = name" using i f by (rule format_name_at)
    from assms d i f obtain a b e where
      u: "map_of d ''unpacked_header'' = Some (PBuf a)" and b: "bufs h a = Some b"
      and e: "map_of d ''endian'' = Some e"
      and x: "unpack e (take len (drop start (buf_bytes b))) len sp = Inr x"
      by (auto simp: decode_field_def split: option.splits pyval.splits)
    from None u e have "name \<notin> set readonly"
      by (auto simp: readonly_def)
    with d None i f nm u b e x show ?thesis
      by (simp add: getitem_def buf_slice_def setattr_def)
  qed
qed

text \<open>
  Claim C4.  When an access to a field of a lazy header returns a value, the same access
  on the resulting state returns the same value and leaves the whole store as it is, the
  read counter of every buffer included: the value comes from the cache.  The first
  access takes at most one slice from a buffer.  A field of the schema whose decode
  succeeds is returned by the first access.
\<close>

theorem lazy_getitem_cached:
  "(\<forall>v h'. getitem fmt unpack self name h = (Inr v, h') \<longrightarrow>
       getitem fmt unpack self name h' = (Inr v, h') \<and> (\<forall>a. reads h' a \<le> reads h a + 1))
   \<and> (\<forall>x. decode_field fmt unpack h self name = Inr x \<longrightarrow>
       (\<exists>v h'. getitem fmt unpack self name h = (Inr v, h')))"
proof (intro conjI allI impI)
  fix v h' assume g: "getitem fmt unpack self name h = (Inr v, h')"
  from getitem_caches [OF g] obtain d' where "objs h' self = Some d'" "map_of d' name = Some v"
    by blast
  then show "getitem fmt unpack self name h' = (Inr v, h')" by (rule getitem_hit)
  fix a show "reads h' a \<le> reads h a + 1" using g by (rule getitem_reads)
next
  fix x assume "decode_field fmt unpack h self name = Inr x"
  then show "\<exists>v h'. getitem fmt unpack self name h = (Inr v, h')" by (rule getitem_returns)
qed

theorem lazy_getitem_cached_witness:
  "decode_field [(2, ''smu'', False, 1)] (\<lambda>e s l sp. unpack_h Big s)
      \<lparr>next_addr = 2, bufs = [0 \<mapsto> \<lparr>buf_bytes = [9, 0, 5], buf_reads = 0\<rparr>],
       objs = [1 \<mapsto> [(''unpacked_header'', PBuf 0), (''endian'', PStr ''>'')]]\<rparr> 1 ''smu'' = Inr 5
   \<and> (\<exists>v h1. getitem [(2, ''smu'', False, 1)] (\<lambda>e s l sp. unpack_h Big s) 1 ''smu''
          \<lparr>next_addr = 2, bufs = [0 \<mapsto> \<lparr>buf_bytes = [9, 0, 5], buf_reads = 0\<rparr>],
           objs = [1 \<mapsto> [(''unpacked_header'', PBuf 0), (''endian'', PStr ''>'')]]\<rparr> = (Inr v, h1)
        \<and> getitem [(2, ''smu'', False, 1)] (\<lambda>e s l sp. unpack_h Big s) 1 ''smu'' h1 = (Inr v, h1))"
proof -
  let ?fmt = "[(2 :: nat, ''smu'', False, 1 :: nat)]"
  let ?un = "\<lambda>(e :: pyval) s (l :: nat) (sp :: bool). unpack_h Big s"
  let ?h = "\<lparr>next_addr = 2, bufs = [0 \<mapsto> \<lparr>buf_bytes = [9, 0, 5], buf_reads = 0\<rparr>],
       objs = [1 \<mapsto> [(''unpacked_header'', PBuf 0), (''endian'', PStr ''>'')]]\<rparr>"
  have d: "decode_field ?fmt ?un ?h 1 ''smu'' = Inr 5"
    by (simp add: decode_field_def TRACE_HEADER_KEYS_def unpack_h_def int16_def)
  from lazy_getitem_cached [of ?fmt ?un 1 "''smu''" ?h] d show ?thesis
    by blast
qed

section \<open>Properties of the copy of a lazy trace header\<close>

lemma extends_refl: "\<forall>a b. bufs h a = Some b \<longrightarrow> a < next_addr h \<Longrightarrow> extends h h"
  by (simp add: extends_def)

lemma extends_trans: "extends h h1 \<Longrightarrow> extends h1 h2 \<Longrightarrow> extends h h2"
  by (auto simp: extends_def)

lemma obs_of_extends:
  "extends h h' \<Longrightarrow> \<forall>a. v = PBuf a \<longrightarrow> a < next_addr h \<Longrightarrow> obs_of h' v = obs_of h v"
  by (cases v) (auto simp: extends_def obs_of_def)

lemma deepcopy_ok:
  assumes "\<forall>a b. bufs h a = Some b \<longrightarrow> a < next_addr h"
    and "\<forall>a. v = PBuf a \<longrightarrow> bufs h a \<noteq> None"
  shows "\<exists>v' h'. deepcopy v h = (Inr v', h') \<and> extends h h' \<and> obs_of h' v' = obs_of h v
           \<and> (\<forall>a'. v' = PBuf a' \<longrightarrow> next_addr h \<le> a' \<and> a' < next_addr h')"
proof (cases v)
  case (PBuf a)
  with assms(2) obtain b where b: "bufs h a = Some b" by auto
  with assms(1) have "a < next_addr h" by blast
  with PBuf b assms(1) show ?thesis
    by (auto simp: deepcopy_def extends_def obs_of_def less_Suc_eq)
qed (use assms in \<open>auto simp: deepcopy_def extends_def obs_of_def\<close>)

lemma deepcopy_items_ok:
  assumes "\<forall>a b. bufs h a = Some b \<longrightarrow> a < next_addr h"
    and "\<forall>k a. (k, PBuf a) \<in> set d \<longrightarrow> bufs h a \<noteq> None"
  shows "\<exists>r h'. deepcopy_items d h = (Inr r, h') \<and> extends h h'
           \<and> map fst r = filter (\<lambda>k. k \<notin> set readonly) (map fst d)
           \<and> list_all2 (\<lambda>(k, v) (k', v'). k' = k \<and> obs_of h' v' = obs_of h v
                 \<and> (\<forall>a'. v' = PBuf a' \<longrightarrow> next_addr h \<le> a' \<and> a' < next_addr h'))
               (filter (\<lambda>(k, v). k \<notin> set readonly) d) r"
  using assms
proof (induction d arbitrary: h)
  case Nil
  then show ?case by (simp add: extends_refl)
next
  case (Cons kv d)
  obtain k v where kv: "kv = (k, v)" by (cases kv)
  have dvalid: "\<forall>k a. (k, PBuf a) \<in> set d \<longrightarrow> bufs h a \<noteq> None"
    using Cons.prems(2) by auto
  show ?case
  proof (cases "k \<in> set readonly")
    case True
    from Cons.IH [OF Cons.prems(1) dvalid] True kv show ?thesis by simp
  next
    case False
    have vvalid: "\<forall>a. v = PBuf a \<longrightarrow> bufs h a \<noteq> None"
      using Cons.prems(2) kv by auto
    from deepcopy_ok [OF Cons.prems(1) vvalid]
    obtain v' h1 where c: "deepcopy v h = (Inr v', h1)" and e1: "extends h h1"
      and o1: "obs_of h1 v' = obs_of h v"
      and f1: "\<forall>a'. v' = PBuf a' \<longrightarrow> next_addr h \<le> a' \<and> a' < next_addr h1"
      by blast
    have b1: "\<forall>a b. bufs h1 a = Some b \<longrightarrow> a < next_addr h1"
      using e1 by (simp add: extends_def)
    have dvalid1: "\<forall>k a. (k, PBuf a) \<in> set d \<longrightarrow> bufs h1 a \<noteq> None"
    proof (intro allI impI)
      fix k a assume m: "(k, PBuf a) \<in> set d"
      with dvalid obtain b where "bufs h a = Some b" by auto
      moreover with Cons.prems(1) have "a < next_addr h" by blast
      ultimately show "bufs h1 a \<noteq> None" using e1 by (simp add: extends_def)
    qed
    from Cons.IH [OF b1 dvalid1]
    obtain r h2 where c2: "deepcopy_items d h1 = (Inr r, h2)" and e2: "extends h1 h2"
      and k2: "map fst r = filter (\<lambda>k. k \<notin> set readonly) (map fst d)"
      and l2: "list_all2 (\<lambda>(k, v) (k', v'). k' = k \<and> obs_of h2 v' = obs_of h1 v
                 \<and> (\<forall>a'. v' = PBuf a' \<longrightarrow> next_addr h1 \<le> a' \<and> a' < next_addr h2))
               (filter (\<lambda>(k, v). k \<notin> set readonly) d) r"
      by blast
    have e: "extends h h2" using e1 e2 by (rule extends_trans)
    have n01: "next_addr h \<le> next_addr h1" and n12: "next_addr h1 \<le> next_addr h2"
      using e1 e2 by (simp_all add: extends_def)
    have hd: "obs_of h2 v' = obs_of h v \<and> (\<forall>a'. v' = PBuf a' \<longrightarrow> next_addr h \<le> a' \<and> a' < next_addr h2)"
      using obs_of_extends [OF e2, of v'] f1 o1 n12 by auto
    have tl: "list_all2 (\<lambda>(k, v) (k', v'). k' = k \<and> obs_of h2 v' = obs_of h v
                 \<and> (\<forall>a'. v' = PBuf a' \<longrightarrow> next_addr h \<le> a' \<and> a' < next_addr h2))
               (filter (\<lambda>(k, v). k \<notin> set readonly) d) r"
    proof (rule list.rel_mono_strong [OF l2])
      fix x y
      assume x: "x \<in> set (filter (\<lambda>(k, v). k \<notin> set readonly) d)" and y: "y \<in> set r"
        and p: "(case x of (k, v) \<Rightarrow> \<lambda>(k', v'). k' = k \<and> obs_of h2 v' = obs_of h1 v
                 \<and> (\<forall>a'. v' = PBuf a' \<longrightarrow> next_addr h1 \<le> a' \<and> a' < next_addr h2)) y"
      obtain kx vx where xx: "x = (kx, vx)" by (cases x)
      obtain ky vy where yy: "y = (ky, vy)" by (cases y)
      from x xx have "(kx, vx) \<in> set d" by auto
      then have "\<forall>a. vx = PBuf a \<longrightarrow> a < next_addr h"
        using dvalid Cons.prems(1) by (metis not_None_eq)
      then have "obs_of h1 vx = obs_of h vx" using e1 by (rule obs_of_extends [rotated])
      with p xx yy n01 show "(case x of (k, v) \<Rightarrow> \<lambda>(k', v'). k' = k \<and> obs_of h2 v' = obs_of h v
                 \<and> (\<forall>a'. v' = PBuf a' \<longrightarrow> next_addr h \<le> a' \<and> a' < next_addr h2)) y"
        by auto
    qed
    from False kv c c2 e k2 hd tl show ?thesis by simp
  qed
qed

lemma list_all2_map_of:
  "list_all2 (\<lambda>(k, v) (k', v'). k' = k \<and> Q v v') xs ys \<Longrightarrow>
   rel_option Q (map_of xs k) (map_of ys k)"
  by (induction xs ys rule: list_all2_induct) auto

lemma list_all2_right:
  "list_all2 P xs ys \<Longrightarrow> y \<in> set ys \<Longrightarrow> \<exists>x \<in> set xs. P x y"
  by (induction xs ys rule: list_all2_induct) auto

lemma map_of_filter_keys:
  "map_of (filter (\<lambda>(k, v). k \<notin> S) d) k = (if k \<in> S then None else map_of d k)"
  by (induction d) auto

lemma set_dict_set: "set (dict_set d k v) \<subseteq> insert (k, v) (set d)"
  by (induction d) (auto split: if_splits)

lemma set_attribdict_update: "set (attribdict_update d data) \<subseteq> set d \<union> set data"
proof (induction data arbitrary: d)
  case Nil
  show ?case by simp
next
  case (Cons kv data)
  obtain k v where kv: "kv = (k, v)" by (cases kv)
  show ?case
    using Cons.IH [of d] Cons.IH [of "dict_set d k v"] set_dict_set [of d k v] kv
    by auto
qed

lemma map_of_attribdict_update:
  assumes "\<forall>k \<in> set (map fst data). k \<notin> set readonly" "distinct (map fst data)"
  shows "map_of (attribdict_update d data) = map_of d ++ map_of data"
  using assms
proof (induction data arbitrary: d)
  case Nil
  show ?case by simp
next
  case (Cons kv data)
  obtain k v where kv: "kv = (k, v)" by (cases kv)
  from Cons.prems kv have nk: "k \<notin> set readonly" and fresh: "map_of data k = None"
    and rest: "\<forall>k \<in> set (map fst data). k \<notin> set readonly" "distinct (map fst data)"
    by (auto simp: map_of_eq_None_iff)
  have "attribdict_update d (kv # data) = attribdict_update (dict_set d k v) data"
    using nk kv by simp
  then have "map_of (attribdict_update d (kv # data)) = (map_of d)(k \<mapsto> v) ++ map_of data"
    by (simp only: Cons.IH [OF rest] map_of_dict_set)
  also have "\<dots> = map_of d ++ map_of (kv # data)"
    using fresh kv by (auto simp: fun_eq_iff map_add_def split: option.splits)
  finally show ?case .
qed

lemma deepcopy_view_ok:
  assumes ok: "heap_ok h" and lv: "is_lazy_view h self" and d: "objs h self = Some d"
  shows "\<exists>c h' dc. deepcopy_view self h = (Inr c, h') \<and> next_addr h \<le> c
           \<and> objs h' = (objs h)(c \<mapsto> dc)
           \<and> (\<forall>a. a < next_addr h \<longrightarrow> bufs h' a = bufs h a)
           \<and> (\<forall>k. map_option (obs_of h') (map_of dc k) = map_option (obs_of h) (map_of d k))
           \<and> (\<forall>k a. (k, PBuf a) \<in> set dc \<longrightarrow> next_addr h \<le> a)"
proof -
  have bd: "\<forall>a b. bufs h a = Some b \<longrightarrow> a < next_addr h"
    using ok by (simp add: heap_ok_def)
  have dist: "distinct (map fst d)"
    and valid: "\<forall>k a. (k, PBuf a) \<in> set d \<longrightarrow> bufs h a \<noteq> None"
    using ok d by (auto simp: heap_ok_def)
  have old: "\<forall>k a. (k, PBuf a) \<in> set d \<longrightarrow> a < next_addr h"
    using valid bd by (metis not_None_eq)
  from lv d obtain a0 e where u: "map_of d ''unpacked_header'' = Some (PBuf a0)"
    and e: "map_of d ''endian'' = Some e"
    by (auto simp: is_lazy_view_def split: option.splits pyval.splits)
  have uin: "(''unpacked_header'', PBuf a0) \<in> set d" and ein: "(''endian'', e) \<in> set d"
    using u e by (auto dest: map_of_SomeD)
  have eold: "\<forall>a. e = PBuf a \<longrightarrow> a < next_addr h" using ein old by auto
  \<comment> \<open>the buffer\<close>
  have "\<forall>a. PBuf a0 = PBuf a \<longrightarrow> bufs h a \<noteq> None" using uin valid by auto
  from deepcopy_ok [OF bd this]
  obtain u' h1 where c1: "deepcopy (PBuf a0) h = (Inr u', h1)" and x1: "extends h h1"
    and o1: "obs_of h1 u' = obs_of h (PBuf a0)"
    and f1: "\<forall>a'. u' = PBuf a' \<longrightarrow> next_addr h \<le> a' \<and> a' < next_addr h1"
    by blast
  have bd1: "\<forall>a b. bufs h1 a = Some b \<longrightarrow> a < next_addr h1"
    using x1 by (simp add: extends_def)
  \<comment> \<open>the byte order\<close>
  have "\<forall>a. e = PBuf a \<longrightarrow> bufs h1 a \<noteq> None"
    using ein valid eold x1 by (auto simp: extends_def)
  from deepcopy_ok [OF bd1 this]
  obtain e' h2 where c2: "deepcopy e h1 = (Inr e', h2)" and x2: "extends h1 h2"
    and o2: "obs_of h2 e' = obs_of h1 e"
    and f2: "\<forall>a'. e' = PBuf a' \<longrightarrow> next_addr h1 \<le> a' \<and> a' < next_addr h2"
    by blast
  have x02: "extends h h2" using x1 x2 by (rule extends_trans)
  have bd2: "\<forall>a b. bufs h2 a = Some b \<longrightarrow> a < next_addr h2"
    using x2 by (simp add: extends_def)
  \<comment> \<open>the cache\<close>
  have "\<forall>k a. (k, PBuf a) \<in> set d \<longrightarrow> bufs h2 a \<noteq> None"
    using valid old x02 by (auto simp: extends_def)
  from deepcopy_items_ok [OF bd2 this]
  obtain r h3 where c3: "deepcopy_items d h2 = (Inr r, h3)" and x3: "extends h2 h3"
    and k3: "map fst r = filter (\<lambda>k. k \<notin> set readonly) (map fst d)"
    and l3: "list_all2 (\<lambda>(k, v) (k', v'). k' = k \<and> obs_of h3 v' = obs_of h2 v
                 \<and> (\<forall>a'. v' = PBuf a' \<longrightarrow> next_addr h2 \<le> a' \<and> a' < next_addr h3))
               (filter (\<lambda>(k, v). k \<notin> set readonly) d) r"
    by blast
  have x03: "extends h h3" using x02 x3 by (rule extends_trans)
  have x13: "extends h1 h3" using x2 x3 by (rule extends_trans)
  have n: "next_addr h \<le> next_addr h1" "next_addr h1 \<le> next_addr h2" "next_addr h2 \<le> next_addr h3"
    using x1 x2 x3 by (simp_all add: extends_def)
  \<comment> \<open>the new object\<close>
  define dc where "dc = dict_set (dict_set (attribdict_update [] r) ''unpacked_header'' u') ''endian'' e'"
  define h4 where "h4 = h3\<lparr>next_addr := Suc (next_addr h3), objs := (objs h3)(next_addr h3 \<mapsto> dc)\<rparr>"
  have c4: "init_view u' e' r h3 = (next_addr h3, h4)"
    by (simp add: init_view_def dc_def h4_def Let_def)
  have res: "deepcopy_view self h = (Inr (next_addr h3), h4)"
    using d u e c1 c2 c3 c4 by (simp add: deepcopy_view_def)
  have ob: "objs h4 = (objs h)(next_addr h3 \<mapsto> dc)"
    using x03 by (simp add: h4_def extends_def)
  have bf: "\<forall>a. a < next_addr h \<longrightarrow> bufs h4 a = bufs h a"
    using x03 by (simp add: h4_def extends_def)
  have o4: "obs_of h4 v = obs_of h3 v" for v
    by (cases v) (simp_all add: obs_of_def h4_def)
  have rk: "\<forall>k \<in> set (map fst r). k \<notin> set readonly" "distinct (map fst r)"
    using k3 dist by (auto simp: distinct_map_filter)
  have mdc: "map_of dc = (((map_of r)(''unpacked_header'' \<mapsto> u'))(''endian'' \<mapsto> e'))"
    by (simp only: dc_def map_of_dict_set map_of_attribdict_update [OF rk]) simp
  have rel: "rel_option (\<lambda>v v'. obs_of h3 v' = obs_of h2 v
                 \<and> (\<forall>a'. v' = PBuf a' \<longrightarrow> next_addr h2 \<le> a' \<and> a' < next_addr h3))
        (if k \<in> set readonly then None else map_of d k) (map_of r k)" for k
    using list_all2_map_of [OF l3, of k] by (simp only: map_of_filter_keys)
  have obs: "map_option (obs_of h4) (map_of dc k) = map_option (obs_of h) (map_of d k)" for k
  proof -
    consider "k = ''endian''" | "k = ''unpacked_header''" | "k \<notin> set readonly"
      by (auto simp: readonly_def)
    then show ?thesis
    proof cases
      case 1
      have "obs_of h3 e' = obs_of h2 e'" using x3 f2 by (intro obs_of_extends) auto
      also have "\<dots> = obs_of h e" using o2 obs_of_extends [OF x1 eold] by simp
      finally show ?thesis using 1 e by (simp add: mdc o4)
    next
      case 2
      have "obs_of h3 u' = obs_of h1 u'" using x13 f1 by (intro obs_of_extends) auto
      with o1 2 u show ?thesis by (simp add: mdc o4)
    next
      case 3
      then have ne: "k \<noteq> ''endian''" "k \<noteq> ''unpacked_header''" by (auto simp: readonly_def)
      show ?thesis
      proof (cases "map_of d k")
        case None
        with rel [of k] 3 ne show ?thesis by (simp add: mdc)
      next
        case (Some v)
        with rel [of k] 3 obtain v' where v': "map_of r k = Some v'" "obs_of h3 v' = obs_of h2 v"
          by (auto simp: option_rel_Some1)
        have "(k, v) \<in> set d" using Some by (rule map_of_SomeD)
        then have "\<forall>a. v = PBuf a \<longrightarrow> a < next_addr h" using old by auto
        then have "obs_of h2 v = obs_of h v" by (rule obs_of_extends [OF x02])
        with v' Some ne show ?thesis by (simp add: mdc o4)
      qed
    qed
  qed
  have fresh: "next_addr h \<le> a" if m: "(k, PBuf a) \<in> set dc" for k a
  proof -
    let ?d0 = "attribdict_update [] r"
    let ?d1 = "dict_set ?d0 ''unpacked_header'' u'"
    from m have "(k, PBuf a) = (''endian'', e') \<or> (k, PBuf a) \<in> set ?d1"
      using set_dict_set [of ?d1 "''endian''" e'] unfolding dc_def by blast
    then have "(k, PBuf a) = (''endian'', e') \<or> (k, PBuf a) = (''unpacked_header'', u')
          \<or> (k, PBuf a) \<in> set ?d0"
      using set_dict_set [of ?d0 "''unpacked_header''" u'] by blast
    then have "(k, PBuf a) = (''endian'', e') \<or> (k, PBuf a) = (''unpacked_header'', u')
          \<or> (k, PBuf a) \<in> set r"
      using set_attribdict_update [of "[]" r] by auto
    then show ?thesis
    proof (elim disjE)
      assume "(k, PBuf a) \<in> set r"
      from list_all2_right [OF l3 this] n show ?thesis by auto
    qed (use f1 f2 n in auto)
  qed
  have "next_addr h \<le> next_addr h3" using n by simp
  with res ob bf obs fresh show ?thesis by blast
qed

lemma getitem_frame:
  assumes "getitem fmt unpack x name h = (res, h')" and "objs h x = Some dx"
  shows "(\<forall>y. y \<noteq> x \<longrightarrow> objs h' y = objs h y)
       \<and> (\<forall>a. (\<forall>k. (k, PBuf a) \<notin> set dx) \<longrightarrow> bufs h' a = bufs h a)"
proof (cases "map_of dx name")
  case (Some w)
  with assms show ?thesis by (simp add: getitem_def)
next
  case None
  show ?thesis
  proof (cases "index_of (TRACE_HEADER_KEYS fmt) name")
    case n: None
    with assms None show ?thesis by (simp add: getitem_def)
  next
    case (Some i)
    obtain len name' sp start where f: "fmt ! i = (len, name', sp, start)"
      by (cases "fmt ! i") auto
    show ?thesis
    proof (cases "map_of dx ''unpacked_header''")
      case u: None
      with assms None Some f show ?thesis by (simp add: getitem_def)
    next
      case u: (Some w)
      then have "(''unpacked_header'', w) \<in> set dx" by (rule map_of_SomeD)
      with assms None Some f u show ?thesis
        by (cases w)
           (auto simp: getitem_def buf_slice_def setattr_def
             split: option.splits sum.splits if_splits)
    qed
  qed
qed

lemma mutate_frame:
  assumes ne: "x \<noteq> y" and dx: "objs h x = Some dx" and dy: "objs h y = Some dy"
    and sep: "\<forall>k a. (k, PBuf a) \<in> set dx \<longrightarrow> (\<forall>k'. (k', PBuf a) \<notin> set dy)"
  shows "observe (mutate fmt unpack x m h) y k = observe h y k"
proof -
  let ?h' = "mutate fmt unpack x m h"
  have fr: "objs ?h' y = objs h y \<and> (\<forall>a. (\<forall>k. (k, PBuf a) \<notin> set dx) \<longrightarrow> bufs ?h' a = bufs h a)"
  proof (cases m)
    case (SetEntry k' v)
    with ne dx show ?thesis by (simp add: mutate_def)
  next
    case (GetItem name)
    obtain res h' where g: "getitem fmt unpack x name h = (res, h')"
      by (cases "getitem fmt unpack x name h")
    from getitem_frame [OF g dx] ne GetItem g show ?thesis by (simp add: mutate_def)
  next
    case (WriteByte k' i b)
    show ?thesis
    proof (cases "map_of dx k'")
      case None
      with WriteByte dx show ?thesis by (simp add: mutate_def)
    next
      case (Some w)
      then have "(k', w) \<in> set dx" by (rule map_of_SomeD)
      with WriteByte dx Some show ?thesis
        by (cases w) (auto simp: mutate_def split: option.splits)
    qed
  qed
  have "obs_of ?h' v = obs_of h v" if "(k, v) \<in> set dy" for v
  proof (cases v)
    case (PBuf a)
    with that sep have "\<forall>k. (k, PBuf a) \<notin> set dx" by blast
    with fr PBuf show ?thesis by (simp add: obs_of_def)
  qed (simp_all add: obs_of_def)
  then have "map_option (obs_of ?h') (map_of dy k) = map_option (obs_of h) (map_of dy k)"
    by (cases "map_of dy k") (auto dest: map_of_SomeD)
  with fr dy show ?thesis by (simp add: observe_def)
qed

text \<open>
  Claim C9.  The copy of a lazy header is a new object.  Through every key it shows what
  the original showed when it was copied: the same cached values, the same byte order,
  a buffer with the same content.  The copy shares nothing with the original: no
  mutation of the copy (a store into its dictionary, an access that fills its cache, a
  write into a buffer it refers to) changes what any key of the original shows, and no
  mutation of the original changes what any key of the copy shows.
\<close>

theorem deepcopy_independent:
  assumes "heap_ok h" and "is_lazy_view h self"
  shows "\<exists>c h1. deepcopy_view self h = (Inr c, h1) \<and> c \<noteq> self
           \<and> (\<forall>k. observe h1 c k = observe h self k)
           \<and> (\<forall>k. observe h1 self k = observe h self k)
           \<and> (\<forall>m k. observe (mutate fmt unpack c m h1) self k = observe h1 self k)
           \<and> (\<forall>m k. observe (mutate fmt unpack self m h1) c k = observe h1 c k)"
proof -
  from assms(2) obtain d where d: "objs h self = Some d"
    by (auto simp: is_lazy_view_def split: option.splits)
  have lt: "self < next_addr h"
    and valid: "\<forall>k a. (k, PBuf a) \<in> set d \<longrightarrow> bufs h a \<noteq> None"
    and bd: "\<forall>a b. bufs h a = Some b \<longrightarrow> a < next_addr h"
    using assms(1) d by (auto simp: heap_ok_def)
  have old: "\<forall>k a. (k, PBuf a) \<in> set d \<longrightarrow> a < next_addr h"
    using valid bd by (metis not_None_eq)
  from deepcopy_view_ok [OF assms d]
  obtain c h1 dc where r: "deepcopy_view self h = (Inr c, h1)" and c: "next_addr h \<le> c"
    and ob: "objs h1 = (objs h)(c \<mapsto> dc)"
    and bf: "\<forall>a. a < next_addr h \<longrightarrow> bufs h1 a = bufs h a"
    and eq: "\<forall>k. map_option (obs_of h1) (map_of dc k) = map_option (obs_of h) (map_of d k)"
    and fresh: "\<forall>k a. (k, PBuf a) \<in> set dc \<longrightarrow> next_addr h \<le> a"
    by blast
  have ne: "c \<noteq> self" using lt c by simp
  have oc: "objs h1 c = Some dc" and os: "objs h1 self = Some d"
    using ob ne d by simp_all
  have 1: "\<forall>k. observe h1 c k = observe h self k"
    using eq oc d by (simp add: observe_def)
  have same: "obs_of h1 v = obs_of h v" if "(k, v) \<in> set d" for k v
    using that old bf by (cases v) (auto simp: obs_of_def)
  have 2: "\<forall>k. observe h1 self k = observe h self k"
  proof
    fix k
    have "map_option (obs_of h1) (map_of d k) = map_option (obs_of h) (map_of d k)"
      by (cases "map_of d k") (auto dest!: map_of_SomeD intro: same)
    with os d show "observe h1 self k = observe h self k" by (simp add: observe_def)
  qed
  have sep1: "\<forall>k a. (k, PBuf a) \<in> set dc \<longrightarrow> (\<forall>k'. (k', PBuf a) \<notin> set d)"
    using fresh old by (metis not_le)
  have sep2: "\<forall>k a. (k, PBuf a) \<in> set d \<longrightarrow> (\<forall>k'. (k', PBuf a) \<notin> set dc)"
    using fresh old by (metis not_le)
  have 3: "\<forall>m k. observe (mutate fmt unpack c m h1) self k = observe h1 self k"
    using mutate_frame [OF ne oc os sep1] by blast
  have 4: "\<forall>m k. observe (mutate fmt unpack self m h1) c k = observe h1 c k"
    using mutate_frame [OF ne [symmetric] os oc sep2] by blast
  from r ne 1 2 3 4 show ?thesis by blast
qed

theorem deepcopy_independent_witness:
  "heap_ok \<lparr>next_addr = 2, bufs = [0 \<mapsto> \<lparr>buf_bytes = [9, 0, 5], buf_reads = 1\<rparr>],
       objs = [1 \<mapsto> [(''unpacked_header'', PBuf 0), (''endian'', PStr ''>''), (''smu'', PInt 5)]]\<rparr>
   \<and> is_lazy_view \<lparr>next_addr = 2, bufs = [0 \<mapsto> \<lparr>buf_bytes = [9, 0, 5], buf_reads = 1\<rparr>],
       objs = [1 \<mapsto> [(''unpacked_header'', PBuf 0), (''endian'', PStr ''>''), (''smu'', PInt 5)]]\<rparr> 1
   \<and> (\<exists>c h1. deepcopy_view 1 \<lparr>next_addr = 2, bufs = [0 \<mapsto> \<lparr>buf_bytes = [9, 0, 5], buf_reads = 1\<rparr>],
       objs = [1 \<mapsto> [(''unpacked_header'', PBuf 0), (''endian'', PStr ''>''), (''smu'', PInt 5)]]\<rparr>
          = (Inr c, h1)
        \<and> c \<noteq> 1
        \<and> observe h1 c ''unpacked_header'' = Some (OBuf (Some \<lparr>buf_bytes = [9, 0, 5], buf_reads = 1\<rparr>))
        \<and> observe (mutate [(2, ''smu'', False, 1)] (\<lambda>e s l sp. unpack_h Big s) c
                     (WriteByte ''unpacked_header'' 0 7) h1) 1 ''unpacked_header''
            = Some (OBuf (Some \<lparr>buf_bytes = [9, 0, 5], buf_reads = 1\<rparr>)))"
proof -
  let ?h = "\<lparr>next_addr = 2, bufs = [0 \<mapsto> \<lparr>buf_bytes = [9, 0, 5], buf_reads = 1\<rparr>],
       objs = [1 \<mapsto> [(''unpacked_header'', PBuf 0), (''endian'', PStr ''>''), (''smu'', PInt 5)]]\<rparr>"
  have ok: "heap_ok ?h"
    by (auto simp: heap_ok_def split: if_splits)
  have lv: "is_lazy_view ?h 1"
    by (simp add: is_lazy_view_def)
  have o: "observe ?h 1 ''unpacked_header'' = Some (OBuf (Some \<lparr>buf_bytes = [9, 0, 5], buf_reads = 1\<rparr>))"
    by (simp add: observe_def obs_of_def)
  from deepcopy_independent [OF ok lv, of "[(2, ''smu'', False, 1)]" "\<lambda>e s l sp. unpack_h Big s"] o
  have "\<exists>c h1. deepcopy_view 1 ?h = (Inr c, h1) \<and> c \<noteq> 1
        \<and> observe h1 c ''unpacked_header'' = Some (OBuf (Some \<lparr>buf_bytes = [9, 0, 5], buf_reads = 1\<rparr>))
        \<and> observe (mutate [(2, ''smu'', False, 1)] (\<lambda>e s l sp. unpack_h Big s) c
                     (WriteByte ''unpacked_header'' 0 7) h1) 1 ''unpacked_header''
            = Some (OBuf (Some \<lparr>buf_bytes = [9, 0, 5], buf_reads = 1\<rparr>))"
    by metis
  with ok lv show ?thesis by blast
qed

section \<open>Properties of the float model and the trace count\<close>

lemma ilog2_bounds:
  assumes "0 < q"
  shows "2 powi (ilog2 q) \<le> q \<and> q < 2 powi (ilog2 q + 1)"
proof -
  obtain a b where ab: "quotient_of q = (a, b)" by (cases "quotient_of q")
  then have b: "0 < b" by (rule quotient_of_denom_pos)
  have q: "q = of_int a / of_int b" using ab by (rule quotient_of_div)
  have a: "0 < a"
  proof (rule ccontr)
    assume "\<not> 0 < a"
    then have "(of_int a :: rat) \<le> 0" by simp
    with b have "of_int a / (of_int b :: rat) \<le> 0" by (simp add: divide_le_0_iff)
    with q assms show False by simp
  qed
  let ?la = "bitlen a" and ?lb = "bitlen b"
  have la: "1 \<le> ?la" and lb: "1 \<le> ?lb"
    using a b bitlen_eq_zero_iff [of a] bitlen_eq_zero_iff [of b] bitlen_nonneg [of a] bitlen_nonneg [of b]
    by linarith+
  from bitlen_bounds [OF a] have "(of_int (2 ^ nat (?la - 1)) :: rat) \<le> of_int a" "(of_int a :: rat) < of_int (2 ^ nat ?la)"
    by (simp_all only: of_int_le_iff of_int_less_iff)
  then have a1: "2 powi (?la - 1) \<le> (of_int a :: rat)" and a2: "(of_int a :: rat) < 2 powi ?la"
    using la by (simp_all add: power_int_def)
  from bitlen_bounds [OF b] have "(of_int (2 ^ nat (?lb - 1)) :: rat) \<le> of_int b" "(of_int b :: rat) < of_int (2 ^ nat ?lb)"
    by (simp_all only: of_int_le_iff of_int_less_iff)
  then have b1: "2 powi (?lb - 1) \<le> (of_int b :: rat)" and b2: "(of_int b :: rat) < 2 powi ?lb"
    using lb by (simp_all add: power_int_def)
  have bp: "(0 :: rat) < of_int b" using b by simp
  have lo: "2 powi (?la - ?lb - 1) < q"
  proof -
    have "2 powi (?la - ?lb - 1) * (of_int b :: rat) < 2 powi (?la - ?lb - 1) * 2 powi ?lb"
      using b2 by (intro mult_strict_left_mono) simp_all
    also have "\<dots> = 2 powi (?la - 1)"
      by (simp flip: power_int_add)
    also have "\<dots> \<le> of_int a" by (rule a1)
    finally show ?thesis using bp by (simp add: q pos_less_divide_eq)
  qed
  have hi: "q < 2 powi (?la - ?lb + 1)"
  proof -
    have "(of_int a :: rat) < 2 powi ?la" by (rule a2)
    also have "\<dots> = 2 powi (?la - ?lb + 1) * 2 powi (?lb - 1)"
      by (simp flip: power_int_add)
    also have "\<dots> \<le> 2 powi (?la - ?lb + 1) * of_int b"
      using b1 by (intro mult_left_mono) simp_all
    finally show ?thesis using bp by (simp add: q pos_divide_less_eq)
  qed
  show ?thesis
  proof (cases "2 powi (?la - ?lb) \<le> q")
    case True
    then have "ilog2 q = ?la - ?lb" using ab by (simp add: ilog2_def)
    with True hi show ?thesis by simp
  next
    case False
    then have "ilog2 q = ?la - ?lb - 1" using ab by (simp add: ilog2_def)
    with False lo show ?thesis by simp
  qed
qed

lemma ilog2_unique:
  assumes "0 < q" "2 powi e \<le> q" "q < 2 powi (e + 1)"
  shows "ilog2 q = e"
proof -
  from ilog2_bounds [OF assms(1)]
  have 1: "2 powi (ilog2 q) \<le> q" and 2: "q < 2 powi (ilog2 q + 1)" by simp_all
  have "(2 :: rat) powi (ilog2 q) < 2 powi (e + 1)" using 1 assms(3) by simp
  then have "ilog2 q < e + 1"
    by (rule contrapos_pp) (simp add: not_less power_int_increasing)
  moreover have "(2 :: rat) powi e < 2 powi (ilog2 q + 1)" using 2 assms(2) by simp
  then have "e < ilog2 q + 1"
    by (rule contrapos_pp) (simp add: not_less power_int_increasing)
  ultimately show ?thesis by simp
qed

lemma round_half_even_near:
  assumes "\<bar>q - of_int m\<bar> < 1 / 2"
  shows "round_half_even q = m"
proof (cases "of_int m \<le> q")
  case True
  with assms have "\<lfloor>q\<rfloor> = m" by (intro floor_unique) (simp_all add: abs_less_iff)
  with assms True show ?thesis by (simp add: round_half_even_def Let_def abs_less_iff)
next
  case False
  with assms have f: "\<lfloor>q\<rfloor> = m - 1" by (intro floor_unique) (simp_all add: abs_less_iff)
  from assms False have "1 / 2 < q - of_int (m - 1)" by (simp add: abs_less_iff)
  with f show ?thesis by (simp add: round_half_even_def Let_def)
qed

lemma fl_eqI:
  assumes "q \<noteq> 0" "2 powi e \<le> \<bar>q\<bar>" "\<bar>q\<bar> < 2 powi (e + 1)"
    and "\<bar>q / 2 powi (e - 52) - of_int m\<bar> < 1 / 2"
  shows "fl q = of_int m * 2 powi (e - 52)"
proof -
  have "ilog2 \<bar>q\<bar> = e" using assms(1-3) by (intro ilog2_unique) simp_all
  with assms(1,4) show ?thesis by (simp add: fl_def round_half_even_near)
qed

lemma fl_of_int:
  assumes "\<bar>k\<bar> < 2 ^ 53"
  shows "fl (of_int k) = of_int k"
proof (cases "k = 0")
  case True
  then show ?thesis by (simp add: fl_def)
next
  case False
  let ?q = "of_int k :: rat"
  let ?e = "ilog2 \<bar>?q\<bar>"
  have pos: "0 < \<bar>?q\<bar>" using False by simp
  from ilog2_bounds [OF pos] have 1: "2 powi ?e \<le> \<bar>?q\<bar>" and 2: "\<bar>?q\<bar> < 2 powi (?e + 1)"
    by simp_all
  have "(of_int \<bar>k\<bar> :: rat) < of_int (2 ^ 53)" using assms by (simp only: of_int_less_iff)
  then have "\<bar>?q\<bar> < 2 powi 53" by simp
  with 1 have "(2 :: rat) powi ?e < 2 powi 53" by simp
  have "?e < 53"
  proof (rule ccontr)
    assume "\<not> ?e < 53"
    then have "(2 :: rat) powi 53 \<le> 2 powi ?e" by (intro power_int_increasing) simp_all
    with \<open>(2 :: rat) powi ?e < 2 powi 53\<close> show False by linarith
  qed
  then have e: "0 \<le> 52 - ?e" by simp
  have u: "(2 :: rat) powi (?e - 52) = 1 / 2 ^ nat (52 - ?e)"
    using e by (simp add: power_int_def field_simps)
  have "fl ?q = of_int (k * 2 ^ nat (52 - ?e)) * 2 powi (?e - 52)"
    using False 1 2 by (intro fl_eqI) (simp_all add: u)
  also have "\<dots> = ?q" by (simp add: u)
  finally show ?thesis .
qed

lemma true_div_exact:
  assumes "b \<noteq> 0" "\<bar>k\<bar> < 2 ^ 53"
  shows "true_div (k * b) b = Inr (of_int k)"
proof -
  have "(of_int (k * b) :: rat) / of_int b = of_int k" using assms(1) by simp
  then show ?thesis using assms by (simp only: true_div_def if_False fl_of_int)
qed

lemma number_of_traces_unfold:
  assumes os: "''os'' \<in> set g" and st: "''struct'' \<in> set g"
    and n: "unpack_h Big (take 2 (drop 3504 d)) = Inr n"
    and dt: "unpack_h Big (take 2 (drop 3216 d)) = Inr dt"
  shows "seismo_get_segy_number_of_traces_in g d =
     (case true_div (10 ^ 6) dt of
        Inl x \<Rightarrow> Inl x
      | Inr q \<Rightarrow>
          (if 3600 + n * 3200 < 0 then Inl OSError
           else true_div (int (length d) - (3600 + n * 3200)) (240 + py_int (fl (q * 60)) * 4)))"
proof -
  have r: "fread 400 (seek_set 3200 (open_rb d)) =
           (take 400 (drop 3200 d), \<lparr>fp_data = d, fp_pos = 3200 + length (take 400 (drop 3200 d))\<rparr>)"
    by (simp add: fread_def seek_set_def open_rb_def Let_def)
  have s1: "take 2 (drop 304 (take 400 (drop 3200 d))) = take 2 (drop 3504 d)"
    by (simp add: drop_take)
  have s2: "take 2 (drop 16 (take 400 (drop 3200 d))) = take 2 (drop 3216 d)"
    by (simp add: drop_take)
  have g1: "global_name g ''os'' = Inr ()" and g2: "global_name g ''struct'' = Inr ()"
    using os st by (simp_all add: global_name_def)
  show ?thesis
    by (simp only: seismo_get_segy_number_of_traces_in_def r prod.case g1 g2 s1 s2 n dt
        sum.case Let_def)
qed

lemma struct_unbound: "''struct'' \<notin> set core_globals"
  by (simp add: core_globals_def)

text \<open>
  What lines 562-572 compute in a global namespace that binds \<^verbatim>\<open>os\<close> and \<^verbatim>\<open>struct\<close>.  With
  the extended-header count \<open>n \<ge> -1\<close> and the sample interval \<open>dt \<noteq> 0\<close> read big-endian from
  the binary header, the body takes \<open>start = 3600 + n * 3200\<close> as the trace data offset and
  \<open>ns = int((10 ^ 6 / dt) * 60)\<close> as the samples per trace, and returns the float quotient
  of \<open>file_size - start\<close> by \<open>240 + ns * 4\<close>.  When the file holds exactly \<open>k\<close> records of
  that size behind the offset (\<open>|k| < 2 ^ 53\<close>), the quotient is exactly \<open>k\<close>.
\<close>

lemma number_of_traces_in_computed:
  assumes os: "''os'' \<in> set g" and st: "''struct'' \<in> set g"
    and n: "unpack_h Big (take 2 (drop 3504 d)) = Inr n"
    and dt: "unpack_h Big (take 2 (drop 3216 d)) = Inr dt"
    and nz: "dt \<noteq> 0"
    and nn: "- 1 \<le> n"
  shows "(let ns = py_int (fl (fl (10 ^ 6 / of_int dt) * 60)); start = 3600 + n * 3200 in
           seismo_get_segy_number_of_traces_in g d =
             true_div (int (length d) - start) (240 + ns * 4)
           \<and> (\<forall>k. \<bar>k\<bar> < 2 ^ 53 \<and> 240 + ns * 4 \<noteq> 0
                  \<and> int (length d) = start + k * (240 + ns * 4) \<longrightarrow>
                seismo_get_segy_number_of_traces_in g d = Inr (of_int k)))"
proof -
  let ?ns = "py_int (fl (fl (10 ^ 6 / of_int dt) * 60))"
  let ?start = "3600 + n * 3200"
  have ge: "\<not> ?start < 0" using nn by simp
  have td: "true_div (10 ^ 6) dt = Inr (fl (10 ^ 6 / of_int dt))"
    using nz by (simp add: true_div_def)
  have 1: "seismo_get_segy_number_of_traces_in g d =
           true_div (int (length d) - ?start) (240 + ?ns * 4)"
    by (simp only: number_of_traces_unfold [OF os st n dt] td sum.case ge if_False)
  have 2: "seismo_get_segy_number_of_traces_in g d = Inr (of_int k)"
    if k: "\<bar>k\<bar> < 2 ^ 53" and z: "240 + ?ns * 4 \<noteq> 0"
      and l: "int (length d) = ?start + k * (240 + ?ns * 4)" for k
  proof -
    from l have "int (length d) - ?start = k * (240 + ?ns * 4)" by linarith
    then show ?thesis
      using true_div_exact [OF z k] by (simp only: 1)
  qed
  show ?thesis
    unfolding Let_def
  proof (intro conjI allI impI)
    show "seismo_get_segy_number_of_traces_in g d =
          true_div (int (length d) - ?start) (240 + ?ns * 4)"
      by (rule 1)
  next
    fix k
    assume "\<bar>k\<bar> < 2 ^ 53 \<and> 240 + ?ns * 4 \<noteq> 0
              \<and> int (length d) = ?start + k * (240 + ?ns * 4)"
    then show "seismo_get_segy_number_of_traces_in g d = Inr (of_int k)"
      by (elim conjE) (rule 2)
  qed
qed

lemma number_of_traces_in_computed_witness:
  "unpack_h Big (take 2 (drop 3504
      (replicate 3216 0 @ [3, 232] @ replicate 286 0 @ [0, 2] @ replicate 246734 0))) = Inr 2
   \<and> unpack_h Big (take 2 (drop 3216
      (replicate 3216 0 @ [3, 232] @ replicate 286 0 @ [0, 2] @ replicate 246734 0))) = Inr 1000
   \<and> (1000 :: int) \<noteq> 0 \<and> (- 1 :: int) \<le> 2
   \<and> seismo_get_segy_number_of_traces_in (''os'' # ''struct'' # core_globals)
        (replicate 3216 0 @ [3, 232] @ replicate 286 0 @ [0, 2] @ replicate 246734 0) = Inr 1"
proof -
  let ?d = "replicate 3216 (0 :: byte) @ [3, 232] @ replicate 286 0 @ [0, 2] @ replicate 246734 0"
  let ?g = "''os'' # ''struct'' # core_globals"
  have g1: "''os'' \<in> set ?g" and g2: "''struct'' \<in> set ?g" by simp_all
  have n: "unpack_h Big (take 2 (drop 3504 ?d)) = Inr 2"
    by (simp add: unpack_h_def int16_def)
  have dt: "unpack_h Big (take 2 (drop 3216 ?d)) = Inr 1000"
    by (simp add: unpack_h_def int16_def)
  have "fl (of_int 1000) = of_int 1000" by (rule fl_of_int) simp
  then have f1: "fl 1000 = 1000" by simp
  have "fl (of_int 60000) = of_int 60000" by (rule fl_of_int) simp
  then have f2: "fl 60000 = 60000" by simp
  have ns: "py_int (fl (fl (10 ^ 6 / of_int 1000) * 60)) = 60000"
    by (simp add: f1 f2 py_int_def)
  have nz: "(1000 :: int) \<noteq> 0" and nn: "(- 1 :: int) \<le> 2" by simp_all
  from number_of_traces_in_computed [OF g1 g2 n dt nz nn, unfolded Let_def ns, THEN conjunct2]
  have "\<forall>k. \<bar>k\<bar> < 2 ^ 53 \<and> 240 + 60000 * 4 \<noteq> (0 :: int)
             \<and> int (length ?d) = 3600 + 2 * 3200 + k * (240 + 60000 * 4) \<longrightarrow>
           seismo_get_segy_number_of_traces_in ?g ?d = Inr (of_int k)"
    .
  then have "\<bar>1 :: int\<bar> < 2 ^ 53 \<and> 240 + 60000 * 4 \<noteq> (0 :: int)
             \<and> int (length ?d) = 3600 + 2 * 3200 + 1 * (240 + 60000 * 4) \<longrightarrow>
           seismo_get_segy_number_of_traces_in ?g ?d = Inr (of_int 1)"
    by (rule spec)
  moreover have "\<bar>1 :: int\<bar> < 2 ^ 53 \<and> 240 + 60000 * 4 \<noteq> (0 :: int)
             \<and> int (length ?d) = 3600 + 2 * 3200 + 1 * (240 + 60000 * 4)"
    by simp
  ultimately have "seismo_get_segy_number_of_traces_in ?g ?d = Inr (of_int 1)"
    by (rule mp)
  then have "seismo_get_segy_number_of_traces_in ?g ?d = Inr 1" by simp
  with n dt nz nn show ?thesis by (intro conjI)
qed

text \<open>
  The same body on a file of 14240 bytes whose header declares 2 extended headers, 1000
  samples per trace, format code 5 and a sample interval of 1000 microseconds, and which
  holds one trace of 240 + 1000 * 4 bytes behind offset 10000.  With the two names bound,
  the body takes 60000 samples per trace from the sample interval and returns the float
  4240 / 240240 = 0.017649017649017648.
\<close>

lemma number_of_traces_in_example:
  "seismo_get_segy_number_of_traces_in (''os'' # ''struct'' # core_globals)
        (replicate 3216 0 @ [3, 232, 0, 0, 3, 232, 0, 0, 0, 5] @ replicate 278 0 @ [0, 2]
           @ replicate 10734 0)
       = Inr (1271745748921139 / 72057594037927936)"
proof -
  let ?d = "replicate 3216 (0 :: byte) @ [3, 232, 0, 0, 3, 232, 0, 0, 0, 5] @ replicate 278 0
         @ [0, 2] @ replicate 10734 0"
  let ?g = "''os'' # ''struct'' # core_globals"
  have g1: "''os'' \<in> set ?g" and g2: "''struct'' \<in> set ?g" by simp_all
  have n: "unpack_h Big (take 2 (drop 3504 ?d)) = Inr 2"
    by (simp add: unpack_h_def int16_def)
  have dt: "unpack_h Big (take 2 (drop 3216 ?d)) = Inr 1000"
    by (simp add: unpack_h_def int16_def)
  have "fl (of_int 1000) = of_int 1000" by (rule fl_of_int) simp
  then have f1: "fl 1000 = 1000" by simp
  have "fl (of_int 60000) = of_int 60000" by (rule fl_of_int) simp
  then have f2: "fl 60000 = 60000" by simp
  have f3: "fl (53 / 3003) = 1271745748921139 / 72057594037927936"
    using fl_eqI [of "53 / 3003" "-6" 5086982995684556] by simp
  have ns: "py_int (fl (fl (10 ^ 6 / of_int 1000) * 60)) = 60000"
    by (simp add: f1 f2 py_int_def)
  have td: "true_div (10 ^ 6) 1000 = Inr (fl (10 ^ 6 / of_int 1000))"
    by (simp add: true_div_def)
  have len: "int (length ?d) - (3600 + 2 * 3200) = 4240" by simp
  have q: "true_div 4240 (240 + 60000 * 4) = Inr (1271745748921139 / 72057594037927936)"
    by (simp add: true_div_def f3)
  show ?thesis
    by (simp only: number_of_traces_unfold [OF g1 g2 n dt] td sum.case ns len q) simp
qed

text \<open>
  Claim C3.  The claim is that the trace-count calculator, on a file with 2 extended
  headers, 1000 samples per trace, 4-byte samples and a size of
  \<open>3600 + 6400 + k * (240 + 4000)\<close> bytes, reports the offset 10000 and the trace count
  \<open>k\<close>.  In the module as shipped the name \<^verbatim>\<open>struct\<close> is not bound, so line 566 raises
  \<^verbatim>\<open>NameError\<close> and no count is reported: here on such a file with \<open>k = 1\<close>, of 14240
  bytes, with format code 5 and a sample interval of 1000 microseconds.
\<close>

theorem number_of_traces_raises:
  "unpack_h Big (take 2 (drop 3504
      (replicate 3216 0 @ [3, 232, 0, 0, 3, 232, 0, 0, 0, 5] @ replicate 278 0 @ [0, 2]
         @ replicate 10734 0))) = Inr 2
   \<and> unpack_h Big (take 2 (drop 3220
      (replicate 3216 0 @ [3, 232, 0, 0, 3, 232, 0, 0, 0, 5] @ replicate 278 0 @ [0, 2]
         @ replicate 10734 0))) = Inr 1000
   \<and> length (replicate 3216 (0 :: byte) @ [3, 232, 0, 0, 3, 232, 0, 0, 0, 5] @ replicate 278 0
         @ [0, 2] @ replicate 10734 0) = 3600 + 6400 + 1 * (240 + 4000)
   \<and> seismo_get_segy_number_of_traces
        (replicate 3216 0 @ [3, 232, 0, 0, 3, 232, 0, 0, 0, 5] @ replicate 278 0 @ [0, 2]
           @ replicate 10734 0)
       = Inl NameError"
proof -
  let ?d = "replicate 3216 (0 :: byte) @ [3, 232, 0, 0, 3, 232, 0, 0, 0, 5] @ replicate 278 0
         @ [0, 2] @ replicate 10734 0"
  have n: "unpack_h Big (take 2 (drop 3504 ?d)) = Inr 2"
    by (simp add: unpack_h_def int16_def)
  have spt: "unpack_h Big (take 2 (drop 3220 ?d)) = Inr 1000"
    by (simp add: unpack_h_def int16_def)
  have l: "length ?d = 3600 + 6400 + 1 * (240 + 4000)" by simp
  have g: "global_name core_globals ''struct'' = Inl NameError"
    using struct_unbound by (simp only: global_name_def if_False)
  have r: "seismo_get_segy_number_of_traces ?d = Inl NameError"
    by (simp only: seismo_get_segy_number_of_traces_def g sum.case split_beta)
  from n spt l r show ?thesis by (intro conjI)
qed

section \<open>Further properties\<close>

lemma unpack_h_two: "length s = 2 \<Longrightarrow> \<exists>v. unpack_h e s = Inr v"
proof -
  assume "length s = 2"
  then obtain b0 b1 where "s = [b0, b1]"
    by (cases s; cases "tl s") auto
  then show ?thesis by (simp add: unpack_h_def)
qed

lemma read_fields_lengths:
  assumes "3506 \<le> length d"
  shows "length (number_of_data_traces (read_fields d)) = 2
       \<and> length (number_of_auxiliary_traces (read_fields d)) = 2
       \<and> length (sample_interval (read_fields d)) = 2
       \<and> length (samples_per_trace (read_fields d)) = 2
       \<and> length (data_format_code (read_fields d)) = 2
       \<and> length (format_number (read_fields d)) = 2
       \<and> length (fixed_length (read_fields d)) = 2
       \<and> length (extended_number (read_fields d)) = 2"
proof -
  have r: "fread 2 \<lparr>fp_data = d, fp_pos = p\<rparr> = (take 2 (drop p d), \<lparr>fp_data = d, fp_pos = p + 2\<rparr>)"
    if "p + 2 \<le> 3506" for p
    using that assms by (simp add: fread_full)
  have l: "length (take 2 (drop p d)) = 2" if "p + 2 \<le> 3506" for p
    using that assms by simp
  have "read_fields d =
      \<lparr>number_of_data_traces = take 2 (drop 3212 d),
       number_of_auxiliary_traces = take 2 (drop 3214 d),
       sample_interval = take 2 (drop 3216 d),
       samples_per_trace = take 2 (drop 3220 d),
       data_format_code = take 2 (drop 3224 d),
       format_number = take 2 (drop 3500 d),
       fixed_length = take 2 (drop 3502 d),
       extended_number = take 2 (drop 3504 d)\<rparr>"
    by (simp add: read_fields_def seek_set_def seek_cur_def open_rb_def r)
  then show ?thesis using assms by simp
qed

text \<open>
  On a file of at least 3506 bytes every field \<^verbatim>\<open>_is_segy\<close> reads is complete, so no
  \<^verbatim>\<open>unpack\<close> can fail and the function returns a boolean.
\<close>

theorem is_segy_returns_on_long_files:
  assumes "3506 \<le> length d"
  shows "\<exists>b. is_segy (Some d) = Inr b"
proof -
  let ?r = "read_fields d"
  note len = read_fields_lengths [OF assms]
  have u: "\<exists>v. unpack_h e (f ?r) = Inr v" if "length (f ?r) = 2" for e f
    using that by (rule unpack_h_two)
  from len u obtain vb vl where vb: "unpack_h Big (data_format_code ?r) = Inr vb"
    and vl: "unpack_h Little (data_format_code ?r) = Inr vl"
    by blast
  have "\<exists>eo. detect_endian (data_format_code ?r) = Inr eo"
    by (simp add: detect_endian_def vb vl)
  then obtain eo where eo: "detect_endian (data_format_code ?r) = Inr eo" ..
  have s: "\<exists>b. sanity_checks e ?r = Inr b" for e
  proof -
    from len u [of sample_interval e] u [of samples_per_trace e]
      u [of number_of_data_traces e] u [of number_of_auxiliary_traces e]
      u [of format_number e] u [of fixed_length e] u [of extended_number e]
    obtain v1 v2 v3 v4 v5 v6 v7 where
      "unpack_h e (sample_interval ?r) = Inr v1" "unpack_h e (samples_per_trace ?r) = Inr v2"
      "unpack_h e (number_of_data_traces ?r) = Inr v3"
      "unpack_h e (number_of_auxiliary_traces ?r) = Inr v4"
      "unpack_h e (format_number ?r) = Inr v5" "unpack_h e (fixed_length ?r) = Inr v6"
      "unpack_h e (extended_number ?r) = Inr v7"
      by blast
    then show ?thesis by (auto simp: sanity_checks_def)
  qed
  show ?thesis
  proof (cases eo)
    case None
    with eo show ?thesis by (auto simp: is_segy_def Let_def)
  next
    case (Some e)
    with eo s [of e] show ?thesis by (auto simp: is_segy_def Let_def)
  qed
qed

theorem is_segy_returns_on_long_files_witness:
  "3506 \<le> length (replicate 3506 (0 :: byte)) \<and> (\<exists>b. is_segy (Some (replicate 3506 0)) = Inr b)"
  using is_segy_returns_on_long_files [of "replicate 3506 0"] by simp

text \<open>
  In a global namespace that binds \<^verbatim>\<open>os\<close> and \<^verbatim>\<open>struct\<close>, when the extended-header count of
  the input is zero or negative, the header surgery writes no output file.
\<close>

lemma remove_extended_headers_in_noop:
  assumes "''os'' \<in> set g" and "''struct'' \<in> set g"
    and "unpack_h Big (take 2 (drop 3504 d)) = Inr n" and "n \<le> 0"
  shows "seismo_segy_remove_extended_headers_in g d = Inr None"
proof -
  obtain a b where "take 2 (drop 3504 d) = [a, b]"
    using assms(3) by (auto simp: unpack_h_def split: list.splits)
  then have "length (take 2 (drop 3504 d)) = length [a, b]" by (simp only:)
  then have l: "3506 \<le> length d" by (simp add: min_def split: if_splits)
  have r1: "fread 3200 (open_rb d) = (take 3200 d, \<lparr>fp_data = d, fp_pos = 3200\<rparr>)"
    using l by (simp add: fread_def open_rb_def Let_def)
  obtain f' where r2: "fread 400 \<lparr>fp_data = d, fp_pos = 3200\<rparr> = (take 400 (drop 3200 d), f')"
    by (simp add: fread_def Let_def)
  have s: "take 2 (drop 304 (take 400 (drop 3200 d))) = take 2 (drop 3504 d)"
    by (simp add: drop_take)
  show ?thesis
    using assms
    by (simp add: seismo_segy_remove_extended_headers_in_def global_name_def r1 r2 s)
qed

lemma remove_extended_headers_in_noop_witness:
  "unpack_h Big (take 2 (drop 3504 (replicate 3600 (0 :: byte)))) = Inr 0 \<and> (0 :: int) \<le> 0
   \<and> seismo_segy_remove_extended_headers_in (''os'' # ''struct'' # core_globals)
        (replicate 3600 0) = Inr None"
proof -
  have h: "unpack_h Big (take 2 (drop 3504 (replicate 3600 (0 :: byte)))) = Inr 0"
    by (simp add: unpack_h_def int16_def numeral_2_eq_2)
  have g1: "''os'' \<in> set (''os'' # ''struct'' # core_globals)"
    and g2: "''struct'' \<in> set (''os'' # ''struct'' # core_globals)" by simp_all
  from remove_extended_headers_in_noop [OF g1 g2 h] h show ?thesis by simp
qed

end
